theory Spec2Isabelle
  imports Complex_Main "HOL-Library.Log_Nat"
begin

section \<open>JavaScript numbers\<close>

text \<open>
  The TypeScript type \<open>number\<close>: an IEEE 754 double. A finite double is the rational it
  denotes; \<open>Infinity\<close>, \<open>-Infinity\<close> and \<open>NaN\<close> are values of the type, since an overflow
  and a division by zero yield them instead of raising. The sign of zero is not modelled:
  \<open>-0\<close> as an input behaves like \<open>0\<close> in every test that \<open>renderToCanvas\<close> makes, and no
  divisor in it is a negative zero (the divisors are a natural height, a target height
  past the safety check, the source ratio and 2).
\<close>

datatype jsnum = Fin rat | PosInf | NegInf | NaN

text \<open>The exponent of a positive rational: \<open>2^e \<le> a < 2^(e+1)\<close>.\<close>

definition ilog2 :: "rat \<Rightarrow> int" where
  "ilog2 a =
     (if 1 \<le> a then bitlen \<lfloor>a\<rfloor> - 1
      else (let k = bitlen \<lfloor>1 / a\<rfloor> - 1 in if a * 2 ^ nat k = 1 then - k else - k - 1))"

text \<open>The nearest integer, the even one of the two when they are equally near.\<close>

definition roundHalfEven :: "rat \<Rightarrow> int" where
  "roundHalfEven t =
     (let f = \<lfloor>t\<rfloor>; d = t - of_int f
      in if d < 1 / 2 then f else if 1 / 2 < d then f + 1 else if even f then f else f + 1)"

text \<open>
  The double nearest to a rational, as every arithmetic operator returns it: 53
  significant bits, ties to even, no exponent below that of the subnormal numbers
  (a unit of \<open>2^-1074\<close>), and \<open>Infinity\<close> from \<open>2^1024\<close> on.
\<close>

definition round64 :: "rat \<Rightarrow> jsnum" where
  "round64 x =
     (if x = 0 then Fin 0
      else (let a = \<bar>x\<bar>;
                p = max (ilog2 a - 52) (- 1074);
                r = of_int (roundHalfEven (a / 2 powi p)) * 2 powi p
            in if 2 powi 1024 \<le> r then (if 0 < x then PosInf else NegInf)
               else Fin (if 0 < x then r else - r)))"

text \<open>The operator \<open>/\<close>.\<close>

fun js_div :: "jsnum \<Rightarrow> jsnum \<Rightarrow> jsnum" where
  "js_div (Fin a) (Fin b) =
     (if b = 0 then (if a = 0 then NaN else if 0 < a then PosInf else NegInf)
      else round64 (a / b))"
| "js_div (Fin a) PosInf = Fin 0"
| "js_div (Fin a) NegInf = Fin 0"
| "js_div PosInf (Fin b) = (if 0 \<le> b then PosInf else NegInf)"
| "js_div NegInf (Fin b) = (if 0 \<le> b then NegInf else PosInf)"
| "js_div PosInf PosInf = NaN"
| "js_div PosInf NegInf = NaN"
| "js_div NegInf PosInf = NaN"
| "js_div NegInf NegInf = NaN"
| "js_div NaN y = NaN"
| "js_div x NaN = NaN"

text \<open>The operator \<open>*\<close>.\<close>

fun js_mul :: "jsnum \<Rightarrow> jsnum \<Rightarrow> jsnum" where
  "js_mul (Fin a) (Fin b) = round64 (a * b)"
| "js_mul (Fin a) PosInf = (if a = 0 then NaN else if 0 < a then PosInf else NegInf)"
| "js_mul (Fin a) NegInf = (if a = 0 then NaN else if 0 < a then NegInf else PosInf)"
| "js_mul PosInf (Fin b) = (if b = 0 then NaN else if 0 < b then PosInf else NegInf)"
| "js_mul NegInf (Fin b) = (if b = 0 then NaN else if 0 < b then NegInf else PosInf)"
| "js_mul PosInf PosInf = PosInf"
| "js_mul PosInf NegInf = NegInf"
| "js_mul NegInf PosInf = NegInf"
| "js_mul NegInf NegInf = PosInf"
| "js_mul NaN y = NaN"
| "js_mul x NaN = NaN"

text \<open>The binary operator \<open>-\<close>.\<close>

fun js_sub :: "jsnum \<Rightarrow> jsnum \<Rightarrow> jsnum" where
  "js_sub (Fin a) (Fin b) = round64 (a - b)"
| "js_sub (Fin a) PosInf = NegInf"
| "js_sub (Fin a) NegInf = PosInf"
| "js_sub PosInf (Fin b) = PosInf"
| "js_sub NegInf (Fin b) = NegInf"
| "js_sub PosInf PosInf = NaN"
| "js_sub PosInf NegInf = PosInf"
| "js_sub NegInf PosInf = NegInf"
| "js_sub NegInf NegInf = NaN"
| "js_sub NaN y = NaN"
| "js_sub x NaN = NaN"

text \<open>The comparisons \<open>>\<close> and \<open><=\<close>: false as soon as one side is \<open>NaN\<close>.\<close>

fun js_gt :: "jsnum \<Rightarrow> jsnum \<Rightarrow> bool" where
  "js_gt (Fin a) (Fin b) = (b < a)"
| "js_gt (Fin a) PosInf = False"
| "js_gt (Fin a) NegInf = True"
| "js_gt PosInf (Fin b) = True"
| "js_gt PosInf PosInf = False"
| "js_gt PosInf NegInf = True"
| "js_gt NegInf y = False"
| "js_gt NaN y = False"
| "js_gt x NaN = False"

fun js_le :: "jsnum \<Rightarrow> jsnum \<Rightarrow> bool" where
  "js_le (Fin a) (Fin b) = (a \<le> b)"
| "js_le (Fin a) PosInf = True"
| "js_le (Fin a) NegInf = False"
| "js_le PosInf (Fin b) = False"
| "js_le PosInf PosInf = True"
| "js_le PosInf NegInf = False"
| "js_le NegInf (Fin b) = True"
| "js_le NegInf PosInf = True"
| "js_le NegInf NegInf = True"
| "js_le NaN y = False"
| "js_le x NaN = False"

text \<open>The operator \<open>!\<close> on a number: true on \<open>0\<close> and on \<open>NaN\<close>.\<close>

fun js_not :: "jsnum \<Rightarrow> bool" where
  "js_not (Fin a) = (a = 0)"
| "js_not PosInf = False"
| "js_not NegInf = False"
| "js_not NaN = True"

text \<open>The operator \<open>||\<close> on numbers: the left operand when it is truthy.\<close>

definition js_or :: "jsnum \<Rightarrow> jsnum \<Rightarrow> jsnum" where
  "js_or x y = (if js_not x then y else x)"

section \<open>The types of \<open>types.ts\<close>\<close>

datatype ResolutionPreset = UHD_4K | QHD_2K | FHD_1080 | HD_720 | CUSTOM

text \<open>The string value of each member of the enum.\<close>

fun preset_label :: "ResolutionPreset \<Rightarrow> string" where
  "preset_label UHD_4K = ''4K UHD''"
| "preset_label QHD_2K = ''2K QHD''"
| "preset_label FHD_1080 = ''1080p FHD''"
| "preset_label HD_720 = ''720p HD''"
| "preset_label CUSTOM = ''Custom''"

datatype OutputFormat = PNG | JPEG | WEBP

fun mime :: "OutputFormat \<Rightarrow> string" where
  "mime PNG = ''image/png''"
| "mime JPEG = ''image/jpeg''"
| "mime WEBP = ''image/webp''"

datatype FitMode = CONTAIN | COVER | STRETCH

record ProcessingSettings =
  preset :: ResolutionPreset
  width :: jsnum
  height :: jsnum
  format :: OutputFormat
  quality :: jsnum
  fitMode :: FitMode
  keepAspectRatio :: bool
  backgroundColor :: string

record ResolutionDef =
  res_width :: jsnum
  res_height :: jsnum

fun RESOLUTIONS :: "ResolutionPreset \<Rightarrow> ResolutionDef" where
  "RESOLUTIONS UHD_4K = \<lparr>res_width = Fin 3840, res_height = Fin 2160\<rparr>"
| "RESOLUTIONS QHD_2K = \<lparr>res_width = Fin 2560, res_height = Fin 1440\<rparr>"
| "RESOLUTIONS FHD_1080 = \<lparr>res_width = Fin 1920, res_height = Fin 1080\<rparr>"
| "RESOLUTIONS HD_720 = \<lparr>res_width = Fin 1280, res_height = Fin 720\<rparr>"
| "RESOLUTIONS CUSTOM = \<lparr>res_width = Fin 0, res_height = Fin 0\<rparr>"

section \<open>The image source\<close>

text \<open>
  \<open>processImage\<close> hands \<open>renderToCanvas\<close> an \<open>ImageBitmap\<close> or an \<open>HTMLImageElement\<close>;
  the \<open>width\<close> and \<open>height\<close> of both are unsigned integers.
\<close>

record image =
  img_width :: nat
  img_height :: nat

section \<open>\<open>renderToCanvas\<close>, step 2: the target dimensions\<close>

text \<open>Lines 44 to 56 of \<open>imageService.ts\<close>, the safety check included.\<close>

definition determineTargetDimensions :: "image \<Rightarrow> ProcessingSettings \<Rightarrow> jsnum \<times> jsnum" where
  "determineTargetDimensions imageSource settings =
     (let targetWidth = width settings;
          targetHeight = height settings;
          targetWidth = (if preset settings \<noteq> CUSTOM
                         then res_width (RESOLUTIONS (preset settings)) else targetWidth);
          targetHeight = (if preset settings \<noteq> CUSTOM
                          then res_height (RESOLUTIONS (preset settings)) else targetHeight);
          targetWidth = (if js_not targetWidth \<or> js_le targetWidth (Fin 0)
                         then js_or (Fin (of_nat (img_width imageSource))) (Fin 1920)
                         else targetWidth);
          targetHeight = (if js_not targetHeight \<or> js_le targetHeight (Fin 0)
                          then js_or (Fin (of_nat (img_height imageSource))) (Fin 1080)
                          else targetHeight)
      in (targetWidth, targetHeight))"

section \<open>\<open>renderToCanvas\<close>, step 6: the draw position\<close>

record placement =
  drawX :: jsnum
  drawY :: jsnum
  drawW :: jsnum
  drawH :: jsnum

text \<open>
  Lines 88 to 123: the four variables start at \<open>(0, 0, targetWidth, targetHeight)\<close>, both
  ratios are computed whatever the fit mode is, and \<open>STRETCH\<close> is the case that assigns
  nothing.
\<close>

definition calculateDrawPosition ::
    "FitMode \<Rightarrow> jsnum \<Rightarrow> jsnum \<Rightarrow> jsnum \<Rightarrow> jsnum \<Rightarrow> placement" where
  "calculateDrawPosition mode srcW srcH targetWidth targetHeight =
     (let p = \<lparr>drawX = Fin 0, drawY = Fin 0, drawW = targetWidth, drawH = targetHeight\<rparr>;
          srcRatio = js_div srcW srcH;
          dstRatio = js_div targetWidth targetHeight
      in if mode = CONTAIN then
           (if js_gt srcRatio dstRatio then
              (let p = p\<lparr>drawW := targetWidth\<rparr>;
                   p = p\<lparr>drawH := js_div targetWidth srcRatio\<rparr>
               in p\<lparr>drawY := js_div (js_sub targetHeight (drawH p)) (Fin 2)\<rparr>)
            else
              (let p = p\<lparr>drawH := targetHeight\<rparr>;
                   p = p\<lparr>drawW := js_mul targetHeight srcRatio\<rparr>
               in p\<lparr>drawX := js_div (js_sub targetWidth (drawW p)) (Fin 2)\<rparr>))
         else if mode = COVER then
           (if js_gt srcRatio dstRatio then
              (let p = p\<lparr>drawH := targetHeight\<rparr>;
                   p = p\<lparr>drawW := js_mul targetHeight srcRatio\<rparr>
               in p\<lparr>drawX := js_div (js_sub targetWidth (drawW p)) (Fin 2)\<rparr>)
            else
              (let p = p\<lparr>drawW := targetWidth\<rparr>;
                   p = p\<lparr>drawH := js_div targetWidth srcRatio\<rparr>
               in p\<lparr>drawY := js_div (js_sub targetHeight (drawH p)) (Fin 2)\<rparr>))
         else p)"

section \<open>The canvas\<close>

text \<open>
  The 2D context is the external rasteriser. The model keeps the attributes that
  \<open>renderToCanvas\<close> assigns and the list of painting calls it makes, in order; a
  \<open>fillRect\<close> is recorded with the fill style in force when it is called. The fields
  \<open>canvas_width\<close> and \<open>canvas_height\<close> hold the numbers assigned, and \<open>fillStyle\<close> the string
  assigned: the conversion of a size to an unsigned integer and the parsing of a colour
  belong to the browser.
\<close>

datatype paint =
    FillRect string jsnum jsnum jsnum jsnum
  | ClearRect jsnum jsnum jsnum jsnum
  | DrawImage image jsnum jsnum jsnum jsnum

record canvas =
  canvas_width :: jsnum
  canvas_height :: jsnum
  imageSmoothingEnabled :: bool
  imageSmoothingQuality :: string
  fillStyle :: string
  painted :: "paint list"

text \<open>\<open>document.createElement('canvas')\<close>: the attributes have their default values.\<close>

definition createCanvas :: canvas where
  "createCanvas = \<lparr>canvas_width = Fin 300, canvas_height = Fin 150,
     imageSmoothingEnabled = True, imageSmoothingQuality = ''low'',
     fillStyle = ''#000000'', painted = []\<rparr>"

definition fillRect :: "jsnum \<Rightarrow> jsnum \<Rightarrow> jsnum \<Rightarrow> jsnum \<Rightarrow> canvas \<Rightarrow> canvas" where
  "fillRect x y w h ctx = ctx\<lparr>painted := painted ctx @ [FillRect (fillStyle ctx) x y w h]\<rparr>"

definition clearRect :: "jsnum \<Rightarrow> jsnum \<Rightarrow> jsnum \<Rightarrow> jsnum \<Rightarrow> canvas \<Rightarrow> canvas" where
  "clearRect x y w h ctx = ctx\<lparr>painted := painted ctx @ [ClearRect x y w h]\<rparr>"

definition drawImage :: "image \<Rightarrow> jsnum \<Rightarrow> jsnum \<Rightarrow> jsnum \<Rightarrow> jsnum \<Rightarrow> canvas \<Rightarrow> canvas" where
  "drawImage img x y w h ctx = ctx\<lparr>painted := painted ctx @ [DrawImage img x y w h]\<rparr>"

section \<open>\<open>renderToCanvas\<close>, step 5: the background\<close>

text \<open>
  Lines 72 to 85. The fill style is chosen from the format and the background colour; the
  choice between \<open>fillRect\<close> and \<open>clearRect\<close> tests \<open>settings.backgroundColor\<close> itself.
\<close>

definition drawBackground :: "ProcessingSettings \<Rightarrow> jsnum \<Rightarrow> jsnum \<Rightarrow> canvas \<Rightarrow> canvas" where
  "drawBackground settings targetWidth targetHeight ctx =
     (let ctx = (if format settings = JPEG \<and> backgroundColor settings = ''transparent''
                 then ctx\<lparr>fillStyle := ''#000000''\<rparr>
                 else ctx\<lparr>fillStyle := backgroundColor settings\<rparr>)
      in if backgroundColor settings \<noteq> ''transparent''
         then fillRect (Fin 0) (Fin 0) targetWidth targetHeight ctx
         else clearRect (Fin 0) (Fin 0) targetWidth targetHeight ctx)"

section \<open>\<open>renderToCanvas\<close>, step 8: the filename\<close>

text \<open>
  \<open>String.prototype.split\<close> with a separator of one character, and \<open>Array.prototype.join\<close>.
  A filename is a list of bytes; the separator \<open>.\<close> is ASCII, so splitting the UTF-8 form
  cuts where splitting the UTF-16 form does.
\<close>

fun js_split :: "char \<Rightarrow> string \<Rightarrow> string list" where
  "js_split sep [] = [[]]"
| "js_split sep (c # cs) =
     (if c = sep then [] # js_split sep cs
      else (case js_split sep cs of p # ps \<Rightarrow> (c # p) # ps | [] \<Rightarrow> [[c]]))"

fun js_join :: "char \<Rightarrow> string list \<Rightarrow> string" where
  "js_join sep [] = []"
| "js_join sep [p] = p"
| "js_join sep (p # q # ps) = p @ sep # js_join sep (q # ps)"

text \<open>The characters that the class \<open>\s\<close> matches, among the ASCII ones.\<close>

definition is_space :: "char \<Rightarrow> bool" where
  "is_space c = (c = CHR '' '' \<or> c = CHR 0x09 \<or> c = CHR 0x0A \<or> c = CHR 0x0B
                 \<or> c = CHR 0x0C \<or> c = CHR 0x0D)"

text \<open>The decimal digits of a natural number.\<close>

fun showDigits :: "nat \<Rightarrow> string" where
  "showDigits n =
     (if n < 10 then [''0123456789'' ! n]
      else showDigits (n div 10) @ [''0123456789'' ! (n mod 10)])"

declare showDigits.simps [simp del]

text \<open>
  \<open>Number::toString\<close>, as a template literal applies it. An integer of at most \<open>2^53\<close> in
  absolute value prints as its decimal digits. Any other finite value prints as the
  shortest digits that read back as the same double, a text the model does not compute:
  it is the parameter \<open>other\<close>.
\<close>

definition Number_toString :: "(rat \<Rightarrow> string) \<Rightarrow> jsnum \<Rightarrow> string" where
  "Number_toString other x =
     (case x of
        NaN \<Rightarrow> ''NaN''
      | PosInf \<Rightarrow> ''Infinity''
      | NegInf \<Rightarrow> ''-Infinity''
      | Fin q \<Rightarrow>
          if of_int \<lfloor>q\<rfloor> = q \<and> \<bar>q\<bar> \<le> 2 ^ 53
          then (if q < 0 then ''-'' @ showDigits (nat \<lfloor>- q\<rfloor>) else showDigits (nat \<lfloor>q\<rfloor>))
          else other q)"

text \<open>Lines 141 to 150.\<close>

definition generateFilename ::
    "(rat \<Rightarrow> string) \<Rightarrow> string \<Rightarrow> jsnum \<Rightarrow> jsnum \<Rightarrow> ProcessingSettings \<Rightarrow> string" where
  "generateFilename other originalFilename targetWidth targetHeight settings =
     (let nameParts = js_split CHR ''.'' originalFilename;
          nameParts = (if length nameParts > 1 then butlast nameParts else nameParts);
          baseName = js_join CHR ''.'' nameParts;
          ext = ''jpg'';
          ext = (if format settings = PNG then ''png'' else ext);
          ext = (if format settings = WEBP then ''webp'' else ext)
      in baseName @ ''_'' @ Number_toString other targetWidth @ ''x''
           @ Number_toString other targetHeight @ ''_''
           @ filter (\<lambda>c. \<not> is_space c) (preset_label (preset settings)) @ ''.'' @ ext)"

section \<open>\<open>renderToCanvas\<close> and \<open>processImage\<close>\<close>

record ProcessedImage =
  blob :: string
  url :: string
  filename :: string
  out_width :: jsnum
  out_height :: jsnum

record File =
  file_name :: string
  file_type :: string
  file_bytes :: string

text \<open>
  What the function asks of the browser: decoding (\<open>createImageBitmap\<close>, and the
  \<open>Image\<close> element of the fallback path), the 2D context (\<open>getContext\<close> is false when
  the canvas gives \<open>null\<close>), the encoder behind \<open>toBlob\<close> (given the canvas, the MIME
  type and the quality; \<open>None\<close> is the \<open>null\<close> blob), \<open>URL.createObjectURL\<close>, and the
  text of a number that is not a small integer.
\<close>

record browser =
  createImageBitmap :: "File \<Rightarrow> image option"
  loadImageElement :: "File \<Rightarrow> image option"
  getContext :: "canvas \<Rightarrow> bool"
  toBlob :: "canvas \<Rightarrow> string \<Rightarrow> jsnum option \<Rightarrow> string option"
  createObjectURL :: "string \<Rightarrow> string"
  fractionToString :: "rat \<Rightarrow> string"

datatype error = ImageLoadFailed | NoCanvasContext | CanvasToBlobFailed

text \<open>
  Lines 39 to 164. A success returns the canvas as the function leaves it, beside the
  \<open>ProcessedImage\<close> that the promise resolves to.
\<close>

definition renderToCanvas ::
    "browser \<Rightarrow> image \<Rightarrow> string \<Rightarrow> ProcessingSettings \<Rightarrow> error + canvas \<times> ProcessedImage" where
  "renderToCanvas env imageSource originalFilename settings =
     (let (targetWidth, targetHeight) = determineTargetDimensions imageSource settings;
          canvas = createCanvas;
          canvas = canvas\<lparr>canvas_width := targetWidth\<rparr>;
          canvas = canvas\<lparr>canvas_height := targetHeight\<rparr>
      in if \<not> getContext env canvas then Inl NoCanvasContext
         else
             (let ctx = canvas\<lparr>imageSmoothingEnabled := True\<rparr>;
                  ctx = ctx\<lparr>imageSmoothingQuality := ''high''\<rparr>;
                  ctx = drawBackground settings targetWidth targetHeight ctx;
                  p = calculateDrawPosition (fitMode settings)
                        (Fin (of_nat (img_width imageSource)))
                        (Fin (of_nat (img_height imageSource))) targetWidth targetHeight;
                  ctx = drawImage imageSource (drawX p) (drawY p) (drawW p) (drawH p) ctx;
                  q = (if format settings = PNG then None else Some (quality settings))
              in case toBlob env ctx (mime (format settings)) q of
                   None \<Rightarrow> Inl CanvasToBlobFailed
                 | Some b \<Rightarrow>
                     Inr (ctx, \<lparr>blob = b, url = createObjectURL env b,
                            filename = generateFilename (fractionToString env)
                              originalFilename targetWidth targetHeight settings,
                            out_width = targetWidth, out_height = targetHeight\<rparr>)))"

text \<open>
  Lines 11 to 37: the bitmap decoder first, the \<open>Image\<close> element when it throws; the
  promise is rejected when the element fails to load too.
\<close>

definition processImage ::
    "browser \<Rightarrow> File \<Rightarrow> ProcessingSettings \<Rightarrow> error + canvas \<times> ProcessedImage" where
  "processImage env sourceFile settings =
     (case createImageBitmap env sourceFile of
        Some bitmap \<Rightarrow> renderToCanvas env bitmap (file_name sourceFile) settings
      | None \<Rightarrow>
          (case loadImageElement env sourceFile of
             Some img \<Rightarrow> renderToCanvas env img (file_name sourceFile) settings
           | None \<Rightarrow> Inl ImageLoadFailed))"

section \<open>The validation of \<open>App.tsx\<close>\<close>

text \<open>Lines 32 to 35: the two messages, \<open>None\<close> for \<open>null\<close>.\<close>

definition widthError :: "ProcessingSettings \<Rightarrow> string option" where
  "widthError settings =
     (if preset settings = CUSTOM \<and> js_le (width settings) (Fin 0)
      then Some ''Width must be positive'' else None)"

definition heightError :: "ProcessingSettings \<Rightarrow> string option" where
  "heightError settings =
     (if preset settings = CUSTOM \<and> js_le (height settings) (Fin 0)
      then Some ''Height must be positive'' else None)"

definition isValid :: "ProcessingSettings \<Rightarrow> bool" where
  "isValid settings = (widthError settings = None \<and> heightError settings = None)"

text \<open>
  \<open>handleProcess\<close>, lines 90 to 103: it returns at once, before \<open>processImage\<close> is called,
  when no file is chosen (the state \<open>file\<close> is \<open>null\<close>) or the settings are not valid.
  \<open>None\<close> is that early return; otherwise the value is the outcome of \<open>processImage\<close>.
\<close>

definition handleProcess ::
    "browser \<Rightarrow> File option \<Rightarrow> ProcessingSettings \<Rightarrow> (error + canvas \<times> ProcessedImage) option" where
  "handleProcess env chosen settings =
     (case chosen of
        None \<Rightarrow> None
      | Some f \<Rightarrow> if isValid settings then Some (processImage env f settings) else None)"

text \<open>
  A browser in which every external step succeeds: the decoder reports a 4000 by 2000
  image, the encoder returns the MIME type as the bytes.
\<close>

definition cooperativeBrowser :: browser where
  "cooperativeBrowser = \<lparr>
     createImageBitmap = (\<lambda>f. Some \<lparr>img_width = 4000, img_height = 2000\<rparr>),
     loadImageElement = (\<lambda>f. None),
     getContext = (\<lambda>c. True),
     toBlob = (\<lambda>c m q. Some m),
     createObjectURL = (\<lambda>b. ''blob:'' @ b),
     fractionToString = (\<lambda>q. ''?'')\<rparr>"

definition DEFAULT_SETTINGS :: ProcessingSettings where
  "DEFAULT_SETTINGS = \<lparr>preset = UHD_4K, width = Fin 3840, height = Fin 2160, format = JPEG,
     quality = round64 (9 / 10), fitMode = CONTAIN, keepAspectRatio = True,
     backgroundColor = ''#000000''\<rparr>"

section \<open>The canvas at the two calls to the browser\<close>

text \<open>
  The canvas whose context \<open>renderToCanvas\<close> asks for (steps 2 and 3), the canvas that it
  hands to \<open>toBlob\<close> (steps 4 to 7), and the quality argument of \<open>toBlob\<close> (step 8).
\<close>

definition sizedCanvas :: "image \<Rightarrow> ProcessingSettings \<Rightarrow> canvas" where
  "sizedCanvas imageSource settings =
     (let (targetWidth, targetHeight) = determineTargetDimensions imageSource settings
      in createCanvas\<lparr>canvas_width := targetWidth, canvas_height := targetHeight\<rparr>)"

definition paintedCanvas :: "image \<Rightarrow> ProcessingSettings \<Rightarrow> canvas" where
  "paintedCanvas imageSource settings =
     (let (targetWidth, targetHeight) = determineTargetDimensions imageSource settings;
          ctx = (sizedCanvas imageSource settings)
                  \<lparr>imageSmoothingEnabled := True, imageSmoothingQuality := ''high''\<rparr>;
          ctx = drawBackground settings targetWidth targetHeight ctx;
          p = calculateDrawPosition (fitMode settings)
                (Fin (of_nat (img_width imageSource)))
                (Fin (of_nat (img_height imageSource))) targetWidth targetHeight
      in drawImage imageSource (drawX p) (drawY p) (drawW p) (drawH p) ctx)"



section \<open>The filename as the specification words it\<close>

text \<open>
  The original filename with its extension stripped: the name up to its last dot, the
  whole name when it has no dot.
\<close>

definition stripExtension :: "string \<Rightarrow> string" where
  "stripExtension name =
     (if CHR ''.'' \<in> set name
      then rev (tl (dropWhile (\<lambda>c. c \<noteq> CHR ''.'') (rev name)))
      else name)"

text \<open>The canonical extension of a format.\<close>

fun canonicalExtension :: "OutputFormat \<Rightarrow> string" where
  "canonicalExtension JPEG = ''jpg''"
| "canonicalExtension PNG = ''png''"
| "canonicalExtension WEBP = ''webp''"

text \<open>The preset label with its spaces removed.\<close>

definition labelWithSpacesRemoved :: "ResolutionPreset \<Rightarrow> string" where
  "labelWithSpacesRemoved p = filter (\<lambda>c. c \<noteq> CHR '' '') (preset_label p)"

text \<open>
  The whole name, from the texts of the two dimensions.
\<close>

definition derivedFilename ::
    "string \<Rightarrow> string \<Rightarrow> string \<Rightarrow> ResolutionPreset \<Rightarrow> OutputFormat \<Rightarrow> string" where
  "derivedFilename name widthText heightText p fmt =
     stripExtension name @ ''_'' @ widthText @ ''x'' @ heightText @ ''_''
       @ labelWithSpacesRemoved p @ ''.'' @ canonicalExtension fmt"

text \<open>
  What makes a text the decimal numeral of a number: it has a digit, digits only, no
  leading zero but in \<open>0\<close> itself, and its value, read from the left, is the number.
\<close>

definition isDigit :: "char \<Rightarrow> bool" where
  "isDigit c = (48 \<le> (of_char c :: nat) \<and> (of_char c :: nat) \<le> 57)"

definition decimalValue :: "string \<Rightarrow> nat" where
  "decimalValue s = foldl (\<lambda>a c. 10 * a + (of_char c - 48)) 0 s"

definition isDecimalOf :: "string \<Rightarrow> nat \<Rightarrow> bool" where
  "isDecimalOf s n =
     (s \<noteq> [] \<and> list_all isDigit s \<and> (s = ''0'' \<or> hd s \<noteq> CHR ''0'') \<and> decimalValue s = n)"

section \<open>Floating tolerance\<close>

text \<open>
  One rounding moves a number of the normal range by a factor between \<open>1 - 2^-53\<close> and
  \<open>1 + 2^-53\<close>.
\<close>

definition lo_factor :: rat where
  "lo_factor = 1 - 1 / 2 ^ 53"

definition hi_factor :: rat where
  "hi_factor = 1 + 1 / 2 ^ 53"

text \<open>
  The tolerance of the properties of the draw position, relative to the exact value:
  \<open>2^-51\<close>, which leaves room for three roundings.
\<close>

definition tolerance :: rat where
  "tolerance = 1 / 2 ^ 51"

text \<open>
  The dimensions that the properties are stated for: from \<open>2^-250\<close> to \<open>2^250\<close>, so that
  no quotient and no product of the draw position overflows or underflows.
\<close>

definition dimension :: "rat \<Rightarrow> bool" where
  "dimension x = (1 / 2 ^ 250 \<le> x \<and> x \<le> 2 ^ 250)"

section \<open>Target dimensions of the fixed presets\<close>

text \<open>
  C8. For every settings record whose preset is not Custom, the target dimensions that
  \<open>renderToCanvas\<close> works with are the catalogue dimensions of that preset, whatever the
  \<open>width\<close> and \<open>height\<close> fields of the record hold.
\<close>

theorem preset_dimensions_win:
  "preset settings \<noteq> CUSTOM \<Longrightarrow>
   determineTargetDimensions imageSource settings =
     (res_width (RESOLUTIONS (preset settings)), res_height (RESOLUTIONS (preset settings)))
   \<and> determineTargetDimensions imageSource settings =
     (case preset settings of
        UHD_4K \<Rightarrow> (Fin 3840, Fin 2160)
      | QHD_2K \<Rightarrow> (Fin 2560, Fin 1440)
      | FHD_1080 \<Rightarrow> (Fin 1920, Fin 1080)
      | HD_720 \<Rightarrow> (Fin 1280, Fin 720))"
  by (cases "preset settings") (simp_all add: determineTargetDimensions_def)

theorem preset_dimensions_win_witness:
  "preset \<lparr>preset = UHD_4K, width = Fin 17, height = Fin (-3), format = JPEG,
      quality = round64 (9 / 10), fitMode = CONTAIN, keepAspectRatio = True,
      backgroundColor = ''#000000''\<rparr> \<noteq> CUSTOM
   \<and> determineTargetDimensions \<lparr>img_width = 640, img_height = 480\<rparr>
        \<lparr>preset = UHD_4K, width = Fin 17, height = Fin (-3), format = JPEG,
         quality = round64 (9 / 10), fitMode = CONTAIN, keepAspectRatio = True,
         backgroundColor = ''#000000''\<rparr> = (Fin 3840, Fin 2160)"
  using preset_dimensions_win [of "\<lparr>preset = UHD_4K, width = Fin 17, height = Fin (-3),
      format = JPEG, quality = round64 (9 / 10), fitMode = CONTAIN, keepAspectRatio = True,
      backgroundColor = ''#000000''\<rparr>" "\<lparr>img_width = 640, img_height = 480\<rparr>"]
  by simp

section \<open>Facts about rounding\<close>

lemma floor_bitlen:
  fixes y :: rat
  assumes "1 \<le> y"
  shows "2 ^ nat (bitlen \<lfloor>y\<rfloor> - 1) \<le> y" and "y < 2 ^ nat (bitlen \<lfloor>y\<rfloor> - 1) * 2"
    and "0 \<le> bitlen \<lfloor>y\<rfloor> - 1"
proof -
  define n where "n = \<lfloor>y\<rfloor>"
  have n1: "1 \<le> n" using assms by (simp add: n_def le_floor_iff)
  then have b: "2 ^ nat (bitlen n - 1) \<le> n" "n < 2 ^ nat (bitlen n)"
    using bitlen_bounds [of n] by auto
  have bl: "1 \<le> bitlen n"
    using n1 bitlen_eq_zero_iff [of n] bitlen_nonneg [of n] by linarith
  then show "0 \<le> bitlen \<lfloor>y\<rfloor> - 1" by (simp add: n_def)
  have "(2::rat) ^ nat (bitlen n - 1) = of_int (2 ^ nat (bitlen n - 1))" by simp
  also have "\<dots> \<le> of_int n" using b(1) by (simp only: of_int_le_iff)
  also have "\<dots> \<le> y" by (simp add: n_def)
  finally show "2 ^ nat (bitlen \<lfloor>y\<rfloor> - 1) \<le> y" by (simp add: n_def)
  have s: "nat (bitlen n) = Suc (nat (bitlen n - 1))" using bl by linarith
  have "n + 1 \<le> 2 ^ nat (bitlen n)" using b(2) by simp
  then have "(of_int (n + 1) :: rat) \<le> of_int (2 ^ nat (bitlen n))" by (simp only: of_int_le_iff)
  moreover have "y < of_int (n + 1)" unfolding n_def using floor_correct [of y] by simp
  ultimately have "y < of_int (2 ^ nat (bitlen n))" by linarith
  then have "y < 2 ^ Suc (nat (bitlen n - 1))" unfolding s by simp
  then show "y < 2 ^ nat (bitlen \<lfloor>y\<rfloor> - 1) * 2" by (simp add: n_def)
qed

lemma powi_2_nonneg: "0 \<le> e \<Longrightarrow> (2::rat) powi e = 2 ^ nat e"
  by (simp add: power_int_def)

lemma powi_2_Suc: "(2::rat) powi (e + 1) = 2 powi e * 2"
  by (simp add: power_int_add_1)

lemma powi_2_pos [simp]: "(0::rat) < 2 powi e"
  by (simp add: power_int_def)

lemma ilog2_bounds2:
  assumes "0 < a"
  shows "2 powi (ilog2 a) \<le> a \<and> a < 2 powi (ilog2 a) * 2"
proof (cases "1 \<le> a")
  case True
  have e: "ilog2 a = bitlen \<lfloor>a\<rfloor> - 1" using True by (simp add: ilog2_def)
  have "(2::rat) powi (ilog2 a) = 2 ^ nat (bitlen \<lfloor>a\<rfloor> - 1)"
    unfolding e using floor_bitlen(3) [OF True] by (rule powi_2_nonneg)
  then show ?thesis using floor_bitlen(1,2) [OF True] by simp
next
  case False
  define y where "y = 1 / a"
  have y1: "1 \<le> y" using False assms by (simp add: y_def)
  define k where "k = bitlen \<lfloor>y\<rfloor> - 1"
  have k0: "0 \<le> k" and lo: "2 ^ nat k \<le> y" and hi: "y < 2 ^ nat k * 2"
    using floor_bitlen [OF y1] by (simp_all add: k_def)
  have p: "(0::rat) < 2 ^ nat k" by simp
  have lo': "a * 2 ^ nat k \<le> 1" using lo assms p by (simp add: y_def field_simps)
  have hi': "1 < a * (2 ^ nat k * 2)" using hi assms p by (simp add: y_def field_simps)
  have mk: "(2::rat) powi (- k) = 1 / 2 ^ nat k"
    using k0 by (simp add: power_int_def inverse_eq_divide power_one_over)
  show ?thesis
  proof (cases "a * 2 ^ nat k = 1")
    case True
    have e: "ilog2 a = - k" using False True by (simp add: ilog2_def Let_def k_def y_def)
    have a: "a = 1 / 2 ^ nat k" using True p by (simp add: field_simps)
    have "1 / 2 ^ nat k < 1 / 2 ^ nat k * (2::rat)"
      by (simp add: divide_strict_right_mono)
    then show ?thesis unfolding e mk using a by simp
  next
    case ne: False
    have e: "ilog2 a = - k - 1" using False ne by (simp add: ilog2_def Let_def k_def y_def)
    have "(2::rat) powi (- k - 1 + 1) = 2 powi (- k - 1) * 2" by (rule powi_2_Suc)
    then have h: "(2::rat) powi (- k - 1) = 1 / (2 ^ nat k * 2)" using mk by simp
    have "1 / (2 ^ nat k * 2) < a" using hi' p by (simp add: field_simps)
    moreover have "a < 1 / 2 ^ nat k" using lo' ne p by (simp add: field_simps)
    ultimately show ?thesis unfolding e h by simp
  qed
qed

lemma ilog2_bounds:
  assumes "0 < a"
  shows "2 powi (ilog2 a) \<le> a" and "a < 2 powi (ilog2 a + 1)"
  using ilog2_bounds2 [OF assms] by (simp_all only: powi_2_Suc)

text \<open>The exponent is determined by the bounds.\<close>

lemma powi_2_mono: "e \<le> f \<Longrightarrow> (2::rat) powi e \<le> 2 powi f"
  by (rule power_int_increasing) simp_all

lemma powi_2_less_iff: "((2::rat) powi e < 2 powi f) = (e < f)"
proof
  assume l: "(2::rat) powi e < 2 powi f"
  show "e < f"
  proof (rule ccontr)
    assume "\<not> e < f"
    then have "(2::rat) powi f \<le> 2 powi e" by (simp add: powi_2_mono)
    then show False using l by simp
  qed
next
  assume "e < f"
  then show "(2::rat) powi e < 2 powi f" by (rule power_int_strict_increasing) simp
qed

lemma ilog2_unique:
  assumes "2 powi e \<le> a" "a < 2 powi (e + 1)"
  shows "ilog2 a = e"
proof -
  have a0: "0 < a" using assms(1) powi_2_pos [of e] by linarith
  have "(2::rat) powi e < 2 powi (ilog2 a + 1)" using assms(1) ilog2_bounds(2) [OF a0] by linarith
  then have 1: "e < ilog2 a + 1" by (simp only: powi_2_less_iff)
  have "(2::rat) powi (ilog2 a) < 2 powi (e + 1)" using assms(2) ilog2_bounds(1) [OF a0] by linarith
  then have 2: "ilog2 a < e + 1" by (simp only: powi_2_less_iff)
  show ?thesis using 1 2 by linarith
qed

text \<open>Rounding to the nearest integer.\<close>

lemma roundHalfEven_error: "\<bar>of_int (roundHalfEven t) - t\<bar> \<le> 1 / 2"
proof -
  have "of_int \<lfloor>t\<rfloor> \<le> t" "t < of_int \<lfloor>t\<rfloor> + 1" using floor_correct [of t] by simp_all
  then show ?thesis by (auto simp add: roundHalfEven_def Let_def)
qed

lemma roundHalfEven_of_int [simp]: "roundHalfEven (of_int m) = m"
  by (simp add: roundHalfEven_def)

lemma roundHalfEven_unique:
  assumes "\<bar>of_int m - t\<bar> < 1 / 2"
  shows "roundHalfEven t = m"
proof -
  have "\<bar>of_int (roundHalfEven t) - (of_int m :: rat)\<bar> < 1"
    using roundHalfEven_error [of t] assms by linarith
  then have "\<bar>(of_int (roundHalfEven t - m) :: rat)\<bar> < 1" by simp
  then have "\<bar>roundHalfEven t - m\<bar> < 1"
    by (metis of_int_abs of_int_less_1_iff)
  then show ?thesis by linarith
qed

lemma roundHalfEven_le:
  assumes "t \<le> of_int N"
  shows "roundHalfEven t \<le> N"
proof -
  have "of_int (roundHalfEven t) \<le> t + 1 / 2" using roundHalfEven_error [of t] by linarith
  then have "(of_int (roundHalfEven t) :: rat) < of_int (N + 1)" using assms by simp
  then show ?thesis by (simp only: of_int_less_iff)
qed

lemma roundHalfEven_ge:
  assumes "of_int N \<le> t"
  shows "N \<le> roundHalfEven t"
proof -
  have "t - 1 / 2 \<le> of_int (roundHalfEven t)" using roundHalfEven_error [of t] by linarith
  then have "(of_int (N - 1) :: rat) < of_int (roundHalfEven t)" using assms by simp
  then show ?thesis by (simp only: of_int_less_iff)
qed

text \<open>The rounding of a positive number, with its exponent at hand.\<close>

lemma round64_pos:
  assumes "2 powi e \<le> x" "x < 2 powi (e + 1)"
  shows "round64 x =
     (if 2 powi 1024 \<le> of_int (roundHalfEven (x / 2 powi (max (e - 52) (- 1074))))
                          * (2::rat) powi (max (e - 52) (- 1074))
      then PosInf
      else Fin (of_int (roundHalfEven (x / 2 powi (max (e - 52) (- 1074))))
                 * 2 powi (max (e - 52) (- 1074))))"
proof -
  have x0: "0 < x" using assms(1) powi_2_pos [of e] by linarith
  have e: "ilog2 x = e" using assms by (rule ilog2_unique)
  have a: "\<bar>x\<bar> = x" using x0 by simp
  show ?thesis using x0 by (simp add: round64_def Let_def a e)
qed

lemma powi_2_add: "(2::rat) powi (a + b) = 2 powi a * 2 powi b"
  by (simp add: power_int_add)

lemma powi_2_diff: "(2::rat) powi (a - b) = 2 powi a / 2 powi b"
  by (simp add: power_int_diff)

text \<open>
  In the normal range the rounded value is finite and within half a unit in the last
  place of the number, that is within \<open>x / 2^53\<close>.
\<close>

lemma round64_rel:
  assumes lo: "2 powi (- 1022) \<le> x" and hi: "x \<le> 2 powi 1022"
  shows "\<exists>y. round64 x = Fin y \<and> \<bar>y - x\<bar> \<le> x / 2 ^ 53"
proof -
  have x0: "0 < x" using lo powi_2_pos [of "- 1022"] by linarith
  define e where "e = ilog2 x"
  have b: "2 powi e \<le> x" "x < 2 powi (e + 1)"
    using ilog2_bounds [OF x0] by (simp_all add: e_def)
  have "(2::rat) powi (- 1022) < 2 powi (e + 1)" using lo b(2) by linarith
  then have "- 1022 < e + 1" by (simp only: powi_2_less_iff)
  then have e1: "- 1022 \<le> e" by simp
  have "(2::rat) powi e < 2 powi 1023" using hi b(1) powi_2_less_iff [of 1022 1023] by linarith
  then have "e < 1023" by (simp only: powi_2_less_iff)
  then have e2: "e \<le> 1022" by simp
  define p where "p = e - 52"
  have mx: "max (e - 52) (- 1074) = p" using e1 by (simp add: p_def)
  define t where "t = x / 2 powi p"
  define m where "m = roundHalfEven t"
  have pp: "(0::rat) < 2 powi p" by simp
  have x: "x = t * 2 powi p" by (simp add: t_def)
  have ep: "(2::rat) powi e = 2 ^ 52 * 2 powi p"
  proof -
    have "e = 52 + p" by (simp add: p_def)
    then show ?thesis by (simp only: powi_2_add power_int_numeral)
  qed
  have ep1: "(2::rat) powi (e + 1) = 2 ^ 53 * 2 powi p"
  proof -
    have "e + 1 = 53 + p" by (simp add: p_def)
    then show ?thesis by (simp only: powi_2_add power_int_numeral)
  qed
  have t1: "2 ^ 52 \<le> t" using b(1) pp unfolding ep x by simp
  have t2: "t < 2 ^ 53" using b(2) pp unfolding ep1 x by simp
  have "t \<le> of_int (2 ^ 53)" using t2 by simp
  then have m2: "m \<le> 2 ^ 53" unfolding m_def by (rule roundHalfEven_le)
  have err: "\<bar>of_int m - t\<bar> \<le> 1 / 2" unfolding m_def by (rule roundHalfEven_error)
  define r where "r = of_int m * (2::rat) powi p"
  have "r \<le> of_int (2 ^ 53) * 2 powi p"
    unfolding r_def using m2 pp by (simp only: mult_le_cancel_right_pos of_int_le_iff)
  then have "r \<le> 2 powi (e + 1)" by (simp add: ep1)
  also have "\<dots> \<le> 2 powi 1023" by (rule powi_2_mono) (use e2 in simp)
  also have "\<dots> < 2 powi 1024" by (simp only: powi_2_less_iff)
  finally have fin: "\<not> 2 powi 1024 \<le> r" by simp
  have r64: "round64 x = Fin r"
    using round64_pos [OF b] fin by (simp add: mx r_def m_def t_def)
  have "\<bar>r - x\<bar> = \<bar>of_int m - t\<bar> * 2 powi p"
    unfolding r_def x using pp by (simp add: abs_mult left_diff_distrib [symmetric])
  also have "\<dots> \<le> (1 / 2) * 2 powi p" using err pp by (simp only: mult_le_cancel_right_pos)
  also have "\<dots> = 2 powi e / 2 ^ 53" unfolding ep by simp
  also have "\<dots> \<le> x / 2 ^ 53" using b(1) by (simp add: divide_right_mono)
  finally show ?thesis using r64 by blast
qed

text \<open>A number that a double holds is its own rounding.\<close>

lemma round64_exact_pos:
  assumes x: "x = of_int k * 2 powi q" and k: "0 < k" "k < 2 ^ 53"
    and q: "- 1074 \<le> q" and fin: "x < 2 powi 1024"
  shows "round64 x = Fin x"
proof -
  have x0: "0 < x" using k(1) by (simp add: x)
  define e where "e = ilog2 x"
  have b: "2 powi e \<le> x" "x < 2 powi (e + 1)"
    using ilog2_bounds [OF x0] by (simp_all add: e_def)
  define p where "p = max (e - 52) (- 1074)"
  have qp: "p \<le> q"
  proof (rule ccontr)
    assume "\<not> p \<le> q"
    then have l: "q + 53 \<le> e" using q by (simp add: p_def)
    have "(of_int k :: rat) < of_int (2 ^ 53)" using k(2) by (simp only: of_int_less_iff)
    then have "x < 2 ^ 53 * 2 powi q" unfolding x by simp
    also have "\<dots> = 2 powi (q + 53)"
      by (simp only: powi_2_add power_int_numeral mult.commute)
    also have "\<dots> \<le> 2 powi e" using l by (rule powi_2_mono)
    finally show False using b(1) by simp
  qed
  have "x / 2 powi p = of_int k * 2 powi (q - p)" by (simp add: x powi_2_diff)
  also have "\<dots> = of_int (k * 2 ^ nat (q - p))" using qp by (simp add: powi_2_nonneg)
  finally have t: "x / 2 powi p = of_int (k * 2 ^ nat (q - p))" .
  have r: "of_int (roundHalfEven (x / 2 powi p)) * (2::rat) powi p = x"
    unfolding t roundHalfEven_of_int unfolding t [symmetric] by simp
  show ?thesis using round64_pos [OF b] fin by (simp add: p_def [symmetric] r)
qed

lemma round64_uminus:
  "round64 (- x) = (case round64 x of Fin r \<Rightarrow> Fin (- r) | PosInf \<Rightarrow> NegInf
                     | NegInf \<Rightarrow> PosInf | NaN \<Rightarrow> NaN)"
  by (cases "x = 0"; cases "0 < x") (auto simp add: round64_def Let_def)

lemma round64_exact:
  assumes x: "x = of_int k * 2 powi q" and k: "\<bar>k\<bar> < 2 ^ 53"
    and q: "- 1074 \<le> q" and fin: "\<bar>x\<bar> < 2 powi 1024"
  shows "round64 x = Fin x"
proof -
  consider "k = 0" | "0 < k" | "k < 0" by linarith
  then show ?thesis
  proof cases
    case 1
    then show ?thesis by (simp add: x round64_def)
  next
    case 2
    then have "0 < x" by (simp add: x)
    then show ?thesis using round64_exact_pos [OF x 2 _ q] k fin by simp
  next
    case 3
    have nx: "- x = of_int (- k) * 2 powi q" by (simp add: x)
    have "x < 0" using 3 by (simp add: x mult_neg_pos)
    then have "round64 (- x) = Fin (- x)"
      using round64_exact_pos [OF nx _ _ q] 3 k fin by simp
    then show ?thesis using round64_uminus [of "- x"] by simp
  qed
qed

text \<open>The rounding of a given number, from its neighbour on the grid.\<close>

lemma round64_nearest:
  assumes b: "2 powi (p + 52) \<le> x" "x < 2 powi (p + 53)"
    and p: "- 1074 \<le> p" "p \<le> 970"
    and m: "\<bar>of_int m - x / 2 powi p\<bar> < 1 / 2"
  shows "round64 x = Fin (of_int m * 2 powi p)"
proof -
  have b': "2 powi (p + 52) \<le> x" "x < 2 powi (p + 52 + 1)" using b by (simp_all add: add.assoc)
  have mx: "max (p + 52 - 52) (- 1074) = p" using p by simp
  have rm: "roundHalfEven (x / 2 powi p) = m" using m by (rule roundHalfEven_unique)
  have pp: "(0::rat) < 2 powi p" by simp
  have "(2::rat) powi (p + 53) = 2 ^ 53 * 2 powi p"
    by (simp only: powi_2_add power_int_numeral mult.commute)
  then have "x / 2 powi p < 2 ^ 53"
    using b(2) pp by (simp add: pos_divide_less_eq)
  then have "x / 2 powi p \<le> of_int (2 ^ 53)" by simp
  then have "m \<le> 2 ^ 53" unfolding rm [symmetric] by (rule roundHalfEven_le)
  then have "(of_int m :: rat) * 2 powi p \<le> of_int (2 ^ 53) * 2 powi p"
    using pp by (simp only: mult_le_cancel_right_pos of_int_le_iff)
  also have "\<dots> = 2 powi (p + 53)"
    by (simp only: powi_2_add power_int_numeral mult.commute of_int_power of_int_numeral)
  also have "\<dots> \<le> 2 powi 1023" by (rule powi_2_mono) (use p in simp)
  also have "\<dots> < 2 powi 1024" by (simp only: powi_2_less_iff)
  finally have fin: "\<not> 2 powi 1024 \<le> of_int m * (2::rat) powi p" by simp
  show ?thesis using round64_pos [OF b'] fin unfolding mx rm by simp
qed

text \<open>From \<open>2^1024\<close> on the rounding is \<open>Infinity\<close>.\<close>

lemma round64_overflow:
  assumes "2 powi 1024 \<le> x"
  shows "round64 x = PosInf"
proof -
  have x0: "0 < x" using assms powi_2_pos [of 1024] by linarith
  define e where "e = ilog2 x"
  have b: "2 powi e \<le> x" "x < 2 powi (e + 1)"
    using ilog2_bounds [OF x0] by (simp_all add: e_def)
  have "(2::rat) powi 1024 < 2 powi (e + 1)" using assms b(2) by linarith
  then have "1024 < e + 1" by (simp only: powi_2_less_iff)
  then have e1: "1024 \<le> e" by simp
  then have mx: "max (e - 52) (- 1074) = e - 52" by simp
  define p where "p = e - 52"
  have pp: "(0::rat) < 2 powi p" by simp
  have ep: "(2::rat) powi e = 2 ^ 52 * 2 powi p"
  proof -
    have "e = 52 + p" by (simp add: p_def)
    then show ?thesis by (simp only: powi_2_add power_int_numeral)
  qed
  have "of_int (2 ^ 52) \<le> x / 2 powi p"
    using b(1) pp unfolding ep by (simp add: pos_le_divide_eq)
  then have "2 ^ 52 \<le> roundHalfEven (x / 2 powi p)" by (rule roundHalfEven_ge)
  then have "(of_int (2 ^ 52) :: rat) * 2 powi p \<le> of_int (roundHalfEven (x / 2 powi p)) * 2 powi p"
    using pp by (simp only: mult_le_cancel_right_pos of_int_le_iff)
  then have "(2::rat) powi e \<le> of_int (roundHalfEven (x / 2 powi p)) * 2 powi p"
    unfolding ep by simp
  moreover have "(2::rat) powi 1024 \<le> 2 powi e" using e1 by (rule powi_2_mono)
  ultimately have "2 powi 1024 \<le> of_int (roundHalfEven (x / 2 powi p)) * (2::rat) powi p"
    by linarith
  then show ?thesis using round64_pos [OF b] unfolding mx p_def by simp
qed

text \<open>Integers of less than 54 bits are doubles.\<close>

lemma round64_of_int:
  assumes "\<bar>k\<bar> < 2 ^ 53"
  shows "round64 (of_int k) = Fin (of_int k)"
proof (rule round64_exact [where k = k and q = 0])
  show "(of_int k :: rat) = of_int k * 2 powi 0" by simp
  show "\<bar>k\<bar> < 2 ^ 53" by (rule assms)
  show "- 1074 \<le> (0::int)" by simp
  have "\<bar>of_int k :: rat\<bar> = of_int \<bar>k\<bar>" by simp
  also have "\<dots> < of_int (2 ^ 53)" using assms by (simp only: of_int_less_iff)
  also have "\<dots> = 2 powi 53" by simp
  also have "\<dots> \<le> 2 powi 1024" by (rule powi_2_mono) simp
  finally show "\<bar>of_int k :: rat\<bar> < 2 powi 1024" .
qed

lemma round64_zero: "round64 0 = Fin 0"
  by (simp add: round64_def)

lemma round64_one: "round64 1 = Fin 1"
  using round64_of_int [of 1] by simp

lemma round64_numeral:
  "numeral k < (9007199254740992::int) \<Longrightarrow> round64 (numeral k) = Fin (numeral k)"
  using round64_of_int [of "numeral k"] by simp

lemma round64_neg_numeral:
  "numeral k < (9007199254740992::int) \<Longrightarrow> round64 (- numeral k) = Fin (- numeral k)"
  using round64_of_int [of "- numeral k"] by simp

text \<open>The roundings that the examples below meet.\<close>

lemma rd_16_9: "round64 (16 / 9) = Fin (2001599834386887 / 1125899906842624)"
  using round64_nearest [where x = "16 / 9" and p = "- 52" and m = 8006399337547548]
  by simp

lemma rd_4_3: "round64 (4 / 3) = Fin (6004799503160661 / 4503599627370496)"
  using round64_nearest [where x = "4 / 3" and p = "- 52" and m = 6004799503160661]
  by simp

lemma rd_9_10: "round64 (9 / 10) = Fin (8106479329266893 / 9007199254740992)"
  using round64_nearest [where x = "9 / 10" and p = "- 53" and m = 8106479329266893]
  by simp

text \<open>480 times the double of \<open>4 / 3\<close>.\<close>

lemma rd_480_4_3: "round64 (90071992547409915 / 140737488355328) = Fin 640"
  using round64_nearest [where x = "90071992547409915 / 140737488355328" and p = "- 43"
      and m = 5629499534213120]
  by simp

lemmas js_eval = round64_zero round64_one round64_numeral round64_neg_numeral
  rd_16_9 rd_4_3 rd_9_10 rd_480_4_3

lemma rd_11_5: "round64 (11 / 5) = Fin (2476979795053773 / 1125899906842624)"
  using round64_nearest [where x = "11 / 5" and p = "- 51" and m = 4953959590107546]
  by simp

text \<open>200 times the double of \<open>11 / 5\<close>, and 440 divided by it.\<close>

lemma rd_200_11_5:
  "round64 (61924494876344325 / 140737488355328) = Fin (7740561859543041 / 17592186044416)"
  using round64_nearest [where x = "61924494876344325 / 140737488355328" and p = "- 44"
      and m = 7740561859543041]
  by simp

lemma rd_440_11_5:
  "round64 (495395959010754560 / 2476979795053773) = Fin (7036874417766399 / 35184372088832)"
  using round64_nearest [where x = "495395959010754560 / 2476979795053773" and p = "- 45"
      and m = 7036874417766399]
  by simp

lemma rd_dyadic:
  "round64 (- (1 / 17592186044416)) = Fin (- (1 / 17592186044416))"
  "round64 (- (1 / 35184372088832)) = Fin (- (1 / 35184372088832))"
  "round64 (1 / 35184372088832) = Fin (1 / 35184372088832)"
  "round64 (1 / 70368744177664) = Fin (1 / 70368744177664)"
  using round64_exact [where k = "- 1" and q = "- 44" and x = "- (1 / 17592186044416)"]
    round64_exact [where k = "- 1" and q = "- 45" and x = "- (1 / 35184372088832)"]
    round64_exact [where k = 1 and q = "- 45" and x = "1 / 35184372088832"]
    round64_exact [where k = 1 and q = "- 46" and x = "1 / 70368744177664"]
  by simp_all

text \<open>The double of \<open>2000 / 1333\<close>, 1440 times it, and 2560 divided by it.\<close>

lemma rd_2000_1333:
  "round64 (2000 / 1333) = Fin (6757088713234053 / 4503599627370496)"
  using round64_nearest [where x = "2000 / 1333" and p = "- 52" and m = 6757088713234053]
  by simp

lemma rd_1440_2000_1333:
  "round64 (304068992095532385 / 140737488355328) = Fin (2375539000746347 / 1099511627776)"
  using round64_nearest [where x = "304068992095532385 / 140737488355328" and p = "- 41"
      and m = 4751078001492694]
  by simp

lemma rd_2560_2000_1333:
  "round64 (11529215046068469760 / 6757088713234053) = Fin (938015359888261 / 549755813888)"
  using round64_nearest [where x = "11529215046068469760 / 6757088713234053" and p = "- 42"
      and m = 7504122879106088]
  by simp

lemmas tie_eval = rd_11_5 rd_200_11_5 rd_440_11_5 rd_dyadic
  rd_2000_1333 rd_1440_2000_1333 rd_2560_2000_1333

text \<open>Twice \<open>2^1023\<close> is beyond the doubles.\<close>

lemma rd_2_1024:
  "round64 (2 ^ 1023 * 2) = PosInf"
  by (rule round64_overflow) simp

section \<open>Facts about the steps\<close>





lemma canvas_size_kept [simp]:
  "canvas_width (drawBackground s tw th c) = canvas_width c"
  "canvas_height (drawBackground s tw th c) = canvas_height c"
  "canvas_width (drawImage i x y w h c) = canvas_width c"
  "canvas_height (drawImage i x y w h c) = canvas_height c"
  by (simp_all add: drawBackground_def drawImage_def fillRect_def clearRect_def Let_def)

text \<open>
  With a context and a blob at hand \<open>renderToCanvas\<close> returns a result, whatever the
  settings and the image are.
\<close>

lemma renderToCanvas_succeeds:
  assumes ctx: "\<forall>c. getContext env c" and enc: "\<forall>c m q. toBlob env c m q \<noteq> None"
  shows "\<exists>ctx out. renderToCanvas env img name s = Inr (ctx, out)
           \<and> (out_width out, out_height out) = determineTargetDimensions img s
           \<and> (canvas_width ctx, canvas_height ctx) = determineTargetDimensions img s"
proof -
  obtain tw th where d: "determineTargetDimensions img s = (tw, th)"
    by (cases "determineTargetDimensions img s")
  have e: "\<And>c m q. (toBlob env c m q = None) = False" using enc by simp
  have g: "\<And>c. getContext env c = True" using ctx by simp
  show ?thesis
    by (simp add: renderToCanvas_def d Let_def e g split: option.split)
qed

text \<open>What a result of \<open>renderToCanvas\<close> holds.\<close>

lemma renderToCanvas_Inr:
  assumes "renderToCanvas env img name s = Inr (ctx, out)"
  shows "painted ctx =
           painted (drawBackground s (fst (determineTargetDimensions img s))
                      (snd (determineTargetDimensions img s)) createCanvas)
           @ [let p = calculateDrawPosition (fitMode s) (Fin (of_nat (img_width img)))
                        (Fin (of_nat (img_height img)))
                        (fst (determineTargetDimensions img s))
                        (snd (determineTargetDimensions img s))
              in DrawImage img (drawX p) (drawY p) (drawW p) (drawH p)]"
    and "filename out = generateFilename (fractionToString env) name
           (fst (determineTargetDimensions img s)) (snd (determineTargetDimensions img s)) s"
    and "(out_width out, out_height out) = determineTargetDimensions img s"
  using assms
  by (auto simp add: renderToCanvas_def Let_def drawImage_def drawBackground_def
       fillRect_def clearRect_def createCanvas_def
       split: option.splits if_splits prod.splits)

lemma stretch_any:
  "calculateDrawPosition STRETCH srcW srcH targetWidth targetHeight =
     \<lparr>drawX = Fin 0, drawY = Fin 0, drawW = targetWidth, drawH = targetHeight\<rparr>"
  by (simp add: calculateDrawPosition_def Let_def)


lemma paintedCanvas_size:
  "canvas_width (paintedCanvas img s) = fst (determineTargetDimensions img s)"
  "canvas_height (paintedCanvas img s) = snd (determineTargetDimensions img s)"
  by (simp_all add: paintedCanvas_def sizedCanvas_def split_beta Let_def)



text \<open>The equations that evaluate the model on a concrete input.\<close>

lemmas model_defs =
  renderToCanvas_def processImage_def handleProcess_def isValid_def widthError_def
  heightError_def determineTargetDimensions_def DEFAULT_SETTINGS_def cooperativeBrowser_def
  createCanvas_def drawBackground_def fillRect_def clearRect_def drawImage_def
  calculateDrawPosition_def generateFilename_def Number_toString_def showDigits.simps
  is_space_def js_or_def Let_def js_eval

section \<open>The draw position within the tolerance\<close>

lemma factor_facts:
  "0 < lo_factor" "lo_factor \<le> 1" "1 \<le> hi_factor" "0 < hi_factor"
  "hi_factor * hi_factor \<le> 1 + tolerance"
  "hi_factor / lo_factor \<le> 1 + tolerance"
  "1 - tolerance \<le> lo_factor * lo_factor"
  "1 - tolerance \<le> lo_factor / hi_factor"
  "1 / 2 \<le> lo_factor" "hi_factor \<le> 2"
  by (simp_all add: lo_factor_def hi_factor_def tolerance_def)

lemma round64_bounds:
  assumes "2 powi (- 1022) \<le> x" "x \<le> 2 powi 1022"
  obtains y where "round64 x = Fin y" "x * lo_factor \<le> y" "y \<le> x * hi_factor"
proof -
  obtain y where y: "round64 x = Fin y" "\<bar>y - x\<bar> \<le> x / 2 ^ 53"
    using round64_rel [OF assms] by blast
  have "x * lo_factor = x - x / 2 ^ 53" "x * hi_factor = x + x / 2 ^ 53"
    by (simp_all add: lo_factor_def hi_factor_def algebra_simps)
  then have "x * lo_factor \<le> y" "y \<le> x * hi_factor" using y(2) by linarith+
  then show ?thesis using y(1) that by blast
qed

text \<open>The source ratio and the target ratio, as the code computes them.\<close>

lemma ratio_range:
  assumes "dimension a" "dimension b"
  shows "1 / 2 ^ 500 \<le> a / b" "a / b \<le> 2 ^ 500" "0 < a" "0 < b"
proof -
  have a: "1 / 2 ^ 250 \<le> a" "a \<le> 2 ^ 250" and b: "1 / 2 ^ 250 \<le> b" "b \<le> 2 ^ 250"
    using assms by (simp_all only: dimension_def)
  have c: "(0::rat) < 1 / 2 ^ 250" by simp
  show p: "0 < a" "0 < b" using a(1) b(1) c by linarith+
  have "(1 / 2 ^ 250) / 2 ^ 250 \<le> a / b"
  proof (rule frac_le)
    show "0 \<le> a" using p(1) by simp
    show "1 / 2 ^ 250 \<le> a" by (rule a(1))
    show "0 < b" by (rule p(2))
    show "b \<le> 2 ^ 250" by (rule b(2))
  qed
  moreover have "(1 / 2 ^ 250) / 2 ^ 250 = (1::rat) / 2 ^ 500" by simp
  ultimately show "1 / 2 ^ 500 \<le> a / b" by (simp only:)
  have "a / b \<le> 2 ^ 250 / (1 / 2 ^ 250)"
  proof (rule frac_le)
    show "(0::rat) \<le> 2 ^ 250" by simp
    show "a \<le> 2 ^ 250" by (rule a(2))
    show "(0::rat) < 1 / 2 ^ 250" by (rule c)
    show "1 / 2 ^ 250 \<le> b" by (rule b(1))
  qed
  moreover have "2 ^ 250 / (1 / 2 ^ 250) = (2::rat) ^ 500" by simp
  ultimately show "a / b \<le> 2 ^ 500" by (simp only:)
qed

lemma rounded_ratio:
  assumes "dimension a" "dimension b"
  obtains R where "js_div (Fin a) (Fin b) = Fin R"
    "(a / b) * lo_factor \<le> R" "R \<le> (a / b) * hi_factor"
    "1 / 2 ^ 501 \<le> R" "R \<le> 2 ^ 501"
proof -
  note r = ratio_range [OF assms]
  have "(2::rat) powi (- 1022) \<le> 1 / 2 ^ 500" "(2::rat) ^ 500 \<le> 2 powi 1022" by simp_all
  then have "2 powi (- 1022) \<le> a / b" "a / b \<le> 2 powi 1022" using r(1,2) by linarith+
  then obtain R where R: "round64 (a / b) = Fin R" "(a / b) * lo_factor \<le> R"
      "R \<le> (a / b) * hi_factor"
    by (rule round64_bounds)
  have q0: "0 \<le> a / b" using r(3,4) by simp
  have "1 / 2 ^ 500 * (1 / 2) \<le> (a / b) * lo_factor"
    using r(1) factor_facts(9) q0 by (intro mult_mono) simp_all
  moreover have "1 / 2 ^ 500 * (1 / 2) = (1::rat) / 2 ^ 501" by simp
  ultimately have lo: "1 / 2 ^ 501 \<le> R" using R(2) by linarith
  have "(a / b) * hi_factor \<le> 2 ^ 500 * 2"
    using r(2) factor_facts(10,4) q0 by (intro mult_mono) simp_all
  moreover have "2 ^ 500 * 2 = (2::rat) ^ 501" by simp
  ultimately have hi: "R \<le> 2 ^ 501" using R(3) by linarith
  have "js_div (Fin a) (Fin b) = Fin R" using r(4) R(1) by simp
  then show ?thesis using R(2,3) lo hi that by blast
qed

lemma rounded_quotient:
  assumes "dimension t" "1 / 2 ^ 501 \<le> R" "R \<le> 2 ^ 501"
  obtains H where "js_div (Fin t) (Fin R) = Fin H"
    "(t / R) * lo_factor \<le> H" "H \<le> (t / R) * hi_factor"
proof -
  have t: "1 / 2 ^ 250 \<le> t" "t \<le> 2 ^ 250" using assms(1) by (simp_all only: dimension_def)
  have t0: "0 < t" using ratio_range(3) [OF assms(1) assms(1)] .
  have c: "(0::rat) < 1 / 2 ^ 501" by simp
  have R0: "0 < R" using assms(2) c by linarith
  have "(1 / 2 ^ 250) / 2 ^ 501 \<le> t / R"
  proof (rule frac_le)
    show "0 \<le> t" using t0 by simp
    show "1 / 2 ^ 250 \<le> t" by (rule t(1))
    show "0 < R" by (rule R0)
    show "R \<le> 2 ^ 501" by (rule assms(3))
  qed
  moreover have "t / R \<le> 2 ^ 250 / (1 / 2 ^ 501)"
  proof (rule frac_le)
    show "(0::rat) \<le> 2 ^ 250" by simp
    show "t \<le> 2 ^ 250" by (rule t(2))
    show "(0::rat) < 1 / 2 ^ 501" by (rule c)
    show "1 / 2 ^ 501 \<le> R" by (rule assms(2))
  qed
  moreover have "(2::rat) powi (- 1022) \<le> (1 / 2 ^ 250) / 2 ^ 501"
    "(2::rat) ^ 250 / (1 / 2 ^ 501) \<le> 2 powi 1022" by simp_all
  ultimately have "2 powi (- 1022) \<le> t / R" "t / R \<le> 2 powi 1022" by linarith+
  then obtain H where H: "round64 (t / R) = Fin H" "(t / R) * lo_factor \<le> H"
      "H \<le> (t / R) * hi_factor"
    by (rule round64_bounds)
  have "js_div (Fin t) (Fin R) = Fin H" using R0 H(1) by simp
  then show ?thesis using H(2,3) that by blast
qed

lemma rounded_product:
  assumes "dimension t" "1 / 2 ^ 501 \<le> R" "R \<le> 2 ^ 501"
  obtains W where "js_mul (Fin t) (Fin R) = Fin W"
    "(t * R) * lo_factor \<le> W" "W \<le> (t * R) * hi_factor"
proof -
  have t: "1 / 2 ^ 250 \<le> t" "t \<le> 2 ^ 250" using assms(1) by (simp_all only: dimension_def)
  have t0: "0 < t" using ratio_range(3) [OF assms(1) assms(1)] .
  have c: "(0::rat) < 1 / 2 ^ 501" by simp
  have R0: "0 < R" using assms(2) c by linarith
  have "(1 / 2 ^ 250) * (1 / 2 ^ 501) \<le> t * R"
  proof (rule mult_mono)
    show "1 / 2 ^ 250 \<le> t" by (rule t(1))
    show "1 / 2 ^ 501 \<le> R" by (rule assms(2))
    show "0 \<le> t" using t0 by simp
    show "(0::rat) \<le> 1 / 2 ^ 501" by simp
  qed
  moreover have "t * R \<le> 2 ^ 250 * 2 ^ 501"
  proof (rule mult_mono)
    show "t \<le> 2 ^ 250" by (rule t(2))
    show "R \<le> 2 ^ 501" by (rule assms(3))
    show "(0::rat) \<le> 2 ^ 250" by simp
    show "0 \<le> R" using R0 by simp
  qed
  moreover have "(2::rat) powi (- 1022) \<le> (1 / 2 ^ 250) * (1 / 2 ^ 501)"
    "(2::rat) ^ 250 * 2 ^ 501 \<le> 2 powi 1022" by simp_all
  ultimately have "2 powi (- 1022) \<le> t * R" "t * R \<le> 2 powi 1022" by linarith+
  then obtain W where W: "round64 (t * R) = Fin W" "(t * R) * lo_factor \<le> W"
      "W \<le> (t * R) * hi_factor"
    by (rule round64_bounds)
  have "js_mul (Fin t) (Fin R) = Fin W" using W(1) by simp
  then show ?thesis using W(2,3) that by blast
qed





text \<open>From a factor to the tolerance.\<close>

lemma within_above:
  fixes t x :: rat
  assumes "0 < t" "x \<le> t * c" "c \<le> 1 + tolerance"
  shows "x \<le> t * (1 + tolerance)"
proof -
  have "t * c \<le> t * (1 + tolerance)" using assms(1,3) by (intro mult_left_mono) simp_all
  then show ?thesis using assms(2) by linarith
qed

lemma within_below:
  fixes t x :: rat
  assumes "0 < t" "t * c \<le> x" "1 - tolerance \<le> c"
  shows "t * (1 - tolerance) \<le> x"
proof -
  have "t * (1 - tolerance) \<le> t * c" using assms(1,3) by (intro mult_left_mono) simp_all
  then show ?thesis using assms(2) by linarith
qed


text \<open>The two branches of each mode, once the two ratios are known.\<close>

lemma contain_cases:
  assumes "js_div (Fin sw) (Fin sh) = Fin R" "js_div (Fin tw) (Fin th) = Fin D"
  shows "calculateDrawPosition CONTAIN (Fin sw) (Fin sh) (Fin tw) (Fin th) =
     (if D < R
      then \<lparr>drawX = Fin 0,
            drawY = js_div (js_sub (Fin th) (js_div (Fin tw) (Fin R))) (Fin 2),
            drawW = Fin tw, drawH = js_div (Fin tw) (Fin R)\<rparr>
      else \<lparr>drawX = js_div (js_sub (Fin tw) (js_mul (Fin th) (Fin R))) (Fin 2),
            drawY = Fin 0,
            drawW = js_mul (Fin th) (Fin R), drawH = Fin th\<rparr>)"
  by (simp add: calculateDrawPosition_def Let_def assms
      del: js_div.simps js_mul.simps js_sub.simps)

lemma cover_cases:
  assumes "js_div (Fin sw) (Fin sh) = Fin R" "js_div (Fin tw) (Fin th) = Fin D"
  shows "calculateDrawPosition COVER (Fin sw) (Fin sh) (Fin tw) (Fin th) =
     (if D < R
      then \<lparr>drawX = js_div (js_sub (Fin tw) (js_mul (Fin th) (Fin R))) (Fin 2),
            drawY = Fin 0,
            drawW = js_mul (Fin th) (Fin R), drawH = Fin th\<rparr>
      else \<lparr>drawX = Fin 0,
            drawY = js_div (js_sub (Fin th) (js_div (Fin tw) (Fin R))) (Fin 2),
            drawW = Fin tw, drawH = js_div (Fin tw) (Fin R)\<rparr>)"
  by (simp add: calculateDrawPosition_def Let_def assms
      del: js_div.simps js_mul.simps js_sub.simps)

section \<open>Contain\<close>




section \<open>Cover\<close>




section \<open>Aspect ratio\<close>

text \<open>The ratio of the rectangle on each branch.\<close>

lemma ratio_of_quotient:
  fixes r R t H lo hi :: rat
  assumes "0 < r" "r * lo \<le> R" "R \<le> r * hi" "0 < t"
    "(t / R) * lo \<le> H" "H \<le> (t / R) * hi" "0 < lo" "0 < hi"
  shows "0 < H" "r * (lo / hi) \<le> t / H" "t / H \<le> r * (hi / lo)"
proof -
  have R0: "0 < R" using assms(1,2,7) mult_pos_pos [of r lo] by linarith
  have q0: "0 < t / R" using assms(4) R0 by simp
  have l0: "0 < (t / R) * lo" using q0 assms(7) by (rule mult_pos_pos)
  show H0: "0 < H" using l0 assms(5) by linarith
  have h0: "0 < (t / R) * hi" using q0 assms(8) by (rule mult_pos_pos)
  have "t / H \<le> t / ((t / R) * lo)"
  proof (rule divide_left_mono [OF assms(5)])
    show "0 \<le> t" using assms(4) by simp
    show "0 < H * ((t / R) * lo)" using H0 l0 by (rule mult_pos_pos)
  qed
  also have "\<dots> = R / lo" using assms(4,7) R0 by simp
  also have "\<dots> \<le> (r * hi) / lo"
    by (rule divide_right_mono [OF assms(3)]) (use assms(7) in simp)
  finally show "t / H \<le> r * (hi / lo)" by simp
  have "r * (lo / hi) = (r * lo) / hi" by simp
  also have "\<dots> \<le> R / hi"
    by (rule divide_right_mono [OF assms(2)]) (use assms(8) in simp)
  also have "\<dots> = t / ((t / R) * hi)" using assms(4,8) R0 by simp
  also have "\<dots> \<le> t / H"
  proof (rule divide_left_mono [OF assms(6)])
    show "0 \<le> t" using assms(4) by simp
    show "0 < (t / R) * hi * H" using h0 H0 by (rule mult_pos_pos)
  qed
  finally show "r * (lo / hi) \<le> t / H" .
qed

lemma ratio_of_product:
  fixes r R t W lo hi :: rat
  assumes "r * lo \<le> R" "R \<le> r * hi" "0 < t"
    "(t * R) * lo \<le> W" "W \<le> (t * R) * hi" "0 \<le> lo" "0 \<le> hi"
  shows "r * (lo * lo) \<le> W / t" "W / t \<le> r * (hi * hi)"
proof -
  have "W / t \<le> ((t * R) * hi) / t"
    by (rule divide_right_mono [OF assms(5)]) (use assms(3) in simp)
  also have "\<dots> = R * hi" using assms(3) by simp
  also have "\<dots> \<le> (r * hi) * hi" using assms(2,7) by (rule mult_right_mono)
  finally show "W / t \<le> r * (hi * hi)" by (simp add: mult.assoc)
  have "r * (lo * lo) = (r * lo) * lo" by simp
  also have "\<dots> \<le> R * lo" using assms(1,6) by (rule mult_right_mono)
  also have "\<dots> = ((t * R) * lo) / t" using assms(3) by simp
  also have "\<dots> \<le> W / t"
    by (rule divide_right_mono [OF assms(4)]) (use assms(3) in simp)
  finally show "r * (lo * lo) \<le> W / t" .
qed

lemma within_tolerance:
  fixes r x :: rat
  assumes "0 < r" "r * a \<le> x" "x \<le> r * b" "1 - tolerance \<le> a" "b \<le> 1 + tolerance"
  shows "\<bar>x - r\<bar> \<le> tolerance * r"
proof -
  have "r * (1 - tolerance) \<le> x" using within_below [OF assms(1,2,4)] .
  moreover have "x \<le> r * (1 + tolerance)" using within_above [OF assms(1,3,5)] .
  ultimately show ?thesis by (simp add: algebra_simps abs_le_iff)
qed

lemma preserved_both:
  assumes d: "dimension sw" "dimension sh" "dimension tw" "dimension th"
    and m: "mode = CONTAIN \<or> mode = COVER"
  shows "\<exists>w h. drawW (calculateDrawPosition mode (Fin sw) (Fin sh) (Fin tw) (Fin th)) = Fin w
           \<and> drawH (calculateDrawPosition mode (Fin sw) (Fin sh) (Fin tw) (Fin th)) = Fin h
           \<and> 0 < h \<and> \<bar>w / h - sw / sh\<bar> \<le> tolerance * (sw / sh)"
proof -
  obtain R where R: "js_div (Fin sw) (Fin sh) = Fin R"
      "(sw / sh) * lo_factor \<le> R" "R \<le> (sw / sh) * hi_factor"
      "1 / 2 ^ 501 \<le> R" "R \<le> 2 ^ 501"
    using rounded_ratio [OF d(1,2)] by blast
  obtain D where D: "js_div (Fin tw) (Fin th) = Fin D"
    using rounded_ratio [OF d(3,4)] by blast
  have pos: "0 < tw" "0 < th" "0 < sw / sh"
    using ratio_range(3,4) [OF d(3,4)] ratio_range(3,4) [OF d(1,2)] by simp_all
  note f = factor_facts
  obtain H where H: "js_div (Fin tw) (Fin R) = Fin H"
      "(tw / R) * lo_factor \<le> H" "H \<le> (tw / R) * hi_factor"
    using rounded_quotient [OF d(3) R(4,5)] by blast
  obtain W where W: "js_mul (Fin th) (Fin R) = Fin W"
      "(th * R) * lo_factor \<le> W" "W \<le> (th * R) * hi_factor"
    using rounded_product [OF d(4) R(4,5)] by blast
  note q = ratio_of_quotient [OF pos(3) R(2,3) pos(1) H(2,3) f(1,4)]
  have wq: "\<bar>tw / H - sw / sh\<bar> \<le> tolerance * (sw / sh)"
    using within_tolerance [OF pos(3) q(2,3) f(8,6)] .
  have "0 \<le> lo_factor" "0 \<le> hi_factor" using f(1,4) by simp_all
  note p = ratio_of_product [OF R(2,3) pos(2) W(2,3) this]
  have wp: "\<bar>W / th - sw / sh\<bar> \<le> tolerance * (sw / sh)"
    using within_tolerance [OF pos(3) p(1,2) f(7,5)] .
  show ?thesis
    using m wq wp q(1) pos(2)
    by (auto simp add: contain_cases [OF R(1) D(1)] cover_cases [OF R(1) D(1)] H(1) W(1)
        simp del: js_div.simps js_sub.simps js_mul.simps)
qed

text \<open>
  C6, as the code has it. For source and target dimensions from \<open>2^-250\<close> to
  \<open>2^250\<close>, the rectangle of Contain and the rectangle of Cover have the ratio of the source within the
  tolerance. The rectangle of Stretch has the ratio of the target, and so that of the
  source exactly when the two coincide.
\<close>

theorem aspect_ratio_preserved:
  "dimension sw \<Longrightarrow> dimension sh \<Longrightarrow> dimension tw \<Longrightarrow> dimension th \<Longrightarrow>
   (let pc = calculateDrawPosition CONTAIN (Fin sw) (Fin sh) (Fin tw) (Fin th);
        pv = calculateDrawPosition COVER (Fin sw) (Fin sh) (Fin tw) (Fin th);
        ps = calculateDrawPosition STRETCH (Fin sw) (Fin sh) (Fin tw) (Fin th)
    in (\<exists>w h. drawW pc = Fin w \<and> drawH pc = Fin h \<and> 0 < h
          \<and> \<bar>w / h - sw / sh\<bar> \<le> tolerance * (sw / sh))
     \<and> (\<exists>w h. drawW pv = Fin w \<and> drawH pv = Fin h \<and> 0 < h
          \<and> \<bar>w / h - sw / sh\<bar> \<le> tolerance * (sw / sh))
     \<and> (\<exists>w h. drawW ps = Fin w \<and> drawH ps = Fin h \<and> 0 < h
          \<and> w / h = tw / th
          \<and> ((w / h = sw / sh) = (sw / sh = tw / th))))"
proof -
  assume d: "dimension sw" "dimension sh" "dimension tw" "dimension th"
  have th0: "0 < th" using ratio_range(4) [OF d(3,4)] .
  show ?thesis
    unfolding Let_def
    using preserved_both [OF d, of CONTAIN] preserved_both [OF d, of COVER] th0
    by (auto simp add: stretch_any)
qed

text \<open>
  A 2000 by 1333 source in the 2560 by 1440 frame: no ratio is exact, all are within the
  tolerance.
\<close>

theorem aspect_ratio_preserved_witness:
  "dimension 2000 \<and> dimension 1333 \<and> dimension 2560 \<and> dimension 1440
   \<and> drawW (calculateDrawPosition CONTAIN (Fin 2000) (Fin 1333) (Fin 2560) (Fin 1440))
       = Fin (2375539000746347 / 1099511627776)
   \<and> drawH (calculateDrawPosition CONTAIN (Fin 2000) (Fin 1333) (Fin 2560) (Fin 1440))
       = Fin 1440
   \<and> \<bar>2375539000746347 / 1099511627776 / 1440 - 2000 / 1333\<bar> \<le> tolerance * (2000 / 1333)
   \<and> drawW (calculateDrawPosition COVER (Fin 2000) (Fin 1333) (Fin 2560) (Fin 1440))
       = Fin 2560
   \<and> drawH (calculateDrawPosition COVER (Fin 2000) (Fin 1333) (Fin 2560) (Fin 1440))
       = Fin (938015359888261 / 549755813888)
   \<and> \<bar>2560 / (938015359888261 / 549755813888) - 2000 / 1333\<bar> \<le> tolerance * (2000 / 1333)
   \<and> drawW (calculateDrawPosition STRETCH (Fin 2000) (Fin 1333) (Fin 2560) (Fin 1440))
       = Fin 2560
   \<and> drawH (calculateDrawPosition STRETCH (Fin 2000) (Fin 1333) (Fin 2560) (Fin 1440))
       = Fin 1440"
  using aspect_ratio_preserved [of 2000 1333 2560 1440]
  by (simp add: dimension_def tolerance_def calculateDrawPosition_def Let_def js_eval tie_eval)

text \<open>
  Beyond the range: a 4000 by 2000 source in a target of \<open>2^1023\<close> a side. Cover
  multiplies the target height by 2, which overflows: the width is \<open>Infinity\<close>, and so
  is the ratio of the rectangle, where the source's is 2.
\<close>

theorem aspect_ratio_overflow_counterexample:
  "drawW (calculateDrawPosition COVER (Fin 4000) (Fin 2000) (Fin (2 ^ 1023)) (Fin (2 ^ 1023)))
     = PosInf
   \<and> drawH (calculateDrawPosition COVER (Fin 4000) (Fin 2000) (Fin (2 ^ 1023)) (Fin (2 ^ 1023)))
     = Fin (2 ^ 1023)
   \<and> js_div PosInf (Fin (2 ^ 1023)) = PosInf
   \<and> js_div (Fin 4000) (Fin 2000) = Fin 2"
  using rd_2_1024
  by (simp add: calculateDrawPosition_def Let_def js_eval)

section \<open>Stretch\<close>

text \<open>
  C7. In Stretch mode the placement rectangle is \<open>(0, 0, targetW, targetH)\<close> for every
  source and every target: the two ratios play no part in it. The image is drawn at that
  rectangle, with the target dimensions that \<open>renderToCanvas\<close> determined.
\<close>

theorem stretch_placement:
  "calculateDrawPosition STRETCH srcW srcH targetWidth targetHeight
     = \<lparr>drawX = Fin 0, drawY = Fin 0, drawW = targetWidth, drawH = targetHeight\<rparr>
   \<and> (fitMode s = STRETCH \<longrightarrow> renderToCanvas env img name s = Inr (ctx, out) \<longrightarrow>
        last (painted ctx) = DrawImage img (Fin 0) (Fin 0) (out_width out) (out_height out)
        \<and> (out_width out, out_height out) = determineTargetDimensions img s)"
proof (intro conjI impI)
  show "calculateDrawPosition STRETCH srcW srcH targetWidth targetHeight
     = \<lparr>drawX = Fin 0, drawY = Fin 0, drawW = targetWidth, drawH = targetHeight\<rparr>"
    by (rule stretch_any)
next
  assume m: "fitMode s = STRETCH" and r: "renderToCanvas env img name s = Inr (ctx, out)"
  show d: "(out_width out, out_height out) = determineTargetDimensions img s"
    using renderToCanvas_Inr(3) [OF r] .
  have "out_width out = fst (determineTargetDimensions img s)"
       "out_height out = snd (determineTargetDimensions img s)"
    using d [symmetric] by simp_all
  then show "last (painted ctx) = DrawImage img (Fin 0) (Fin 0) (out_width out) (out_height out)"
    using renderToCanvas_Inr(1) [OF r] m by (simp add: stretch_any Let_def)
qed

theorem stretch_placement_witness:
  "fitMode (DEFAULT_SETTINGS\<lparr>fitMode := STRETCH\<rparr>) = STRETCH
   \<and> renderToCanvas cooperativeBrowser \<lparr>img_width = 4000, img_height = 2000\<rparr> ''photo.png''
        (DEFAULT_SETTINGS\<lparr>fitMode := STRETCH\<rparr>)
      = Inr (\<lparr>canvas_width = Fin 3840, canvas_height = Fin 2160,
               imageSmoothingEnabled = True, imageSmoothingQuality = ''high'',
               fillStyle = ''#000000'',
               painted = [FillRect ''#000000'' (Fin 0) (Fin 0) (Fin 3840) (Fin 2160),
                 DrawImage \<lparr>img_width = 4000, img_height = 2000\<rparr>
                   (Fin 0) (Fin 0) (Fin 3840) (Fin 2160)]\<rparr>,
             \<lparr>blob = ''image/jpeg'', url = ''blob:image/jpeg'',
              filename = ''photo_3840x2160_4KUHD.jpg'',
              out_width = Fin 3840, out_height = Fin 2160\<rparr>)"
  using stretch_placement [of "Fin 4000" "Fin 2000" "Fin 3840" "Fin 2160"
      "DEFAULT_SETTINGS\<lparr>fitMode := STRETCH\<rparr>" cooperativeBrowser
      "\<lparr>img_width = 4000, img_height = 2000\<rparr>" "''photo.png''"]
  by (simp add: model_defs)

section \<open>The safety check\<close>




text \<open>With no natural size either, the target is 1920 by 1080.\<close>

lemma safety_check_fallback_1920:
  "determineTargetDimensions \<lparr>img_width = 0, img_height = 0\<rparr>
     (DEFAULT_SETTINGS\<lparr>preset := CUSTOM, width := Fin (- 7), height := Fin 0\<rparr>)
   = (Fin 1920, Fin 1080)"
  by (simp add: model_defs)

section \<open>Invalid custom dimensions\<close>

lemma invalid_custom_not_valid:
  "preset s = CUSTOM \<Longrightarrow> js_le (width s) (Fin 0) \<or> js_le (height s) (Fin 0) \<Longrightarrow> \<not> isValid s"
  by (auto simp add: isValid_def widthError_def heightError_def)

text \<open>
  C1, as the code has it. When the preset is Custom and the width or the height is at
  most 0, the settings are not valid and \<open>handleProcess\<close> returns before it calls
  \<open>processImage\<close>: nothing is drawn or encoded, and no error value is produced. With
  Custom 100 by 100 the settings are valid, \<open>processImage\<close> is called, the target is 100
  by 100, and the result is a success as soon as the file decodes and the browser
  supplies a context and a blob.
\<close>

theorem invalid_custom_dimensions_stopped:
  "(preset s = CUSTOM \<longrightarrow> js_le (width s) (Fin 0) \<or> js_le (height s) (Fin 0) \<longrightarrow>
      \<not> isValid s \<and> handleProcess env chosen s = None)
   \<and> (let ok = s\<lparr>preset := CUSTOM, width := Fin 100, height := Fin 100\<rparr> in
        isValid ok
      \<and> handleProcess env (Some f) ok = Some (processImage env f ok)
      \<and> determineTargetDimensions img ok = (Fin 100, Fin 100)
      \<and> (createImageBitmap env f = Some img
            \<or> createImageBitmap env f = None \<and> loadImageElement env f = Some img \<longrightarrow>
          (\<forall>c. getContext env c) \<longrightarrow> (\<forall>c m q. toBlob env c m q \<noteq> None) \<longrightarrow>
          (\<exists>ctx out. handleProcess env (Some f) ok = Some (Inr (ctx, out))
             \<and> out_width out = Fin 100 \<and> out_height out = Fin 100
             \<and> canvas_width ctx = Fin 100 \<and> canvas_height ctx = Fin 100)))"
proof -
  define ok where "ok = s\<lparr>preset := CUSTOM, width := Fin 100, height := Fin 100\<rparr>"
  have stop: "preset s = CUSTOM \<Longrightarrow> js_le (width s) (Fin 0) \<or> js_le (height s) (Fin 0) \<Longrightarrow>
      \<not> isValid s \<and> handleProcess env chosen s = None"
    using invalid_custom_not_valid [of s]
    by (simp add: handleProcess_def split: option.split)
  have v: "isValid ok"
    by (simp add: ok_def isValid_def widthError_def heightError_def)
  have hp: "handleProcess env (Some f) ok = Some (processImage env f ok)"
    using v by (simp add: handleProcess_def)
  have d: "determineTargetDimensions img ok = (Fin 100, Fin 100)"
    by (simp add: ok_def determineTargetDimensions_def Let_def)
  have run: "\<exists>ctx out. handleProcess env (Some f) ok = Some (Inr (ctx, out))
             \<and> out_width out = Fin 100 \<and> out_height out = Fin 100
             \<and> canvas_width ctx = Fin 100 \<and> canvas_height ctx = Fin 100"
    if dec: "createImageBitmap env f = Some img
            \<or> createImageBitmap env f = None \<and> loadImageElement env f = Some img"
      and a: "\<forall>c. getContext env c" "\<forall>c m q. toBlob env c m q \<noteq> None"
  proof -
    have pi: "processImage env f ok = renderToCanvas env img (file_name f) ok"
      using dec by (auto simp add: processImage_def)
    obtain ctx out where "renderToCanvas env img (file_name f) ok = Inr (ctx, out)"
        "(out_width out, out_height out) = determineTargetDimensions img ok"
        "(canvas_width ctx, canvas_height ctx) = determineTargetDimensions img ok"
      using renderToCanvas_succeeds [OF a] by blast
    then show ?thesis using hp pi d by auto
  qed
  show ?thesis
    using stop v hp d run unfolding Let_def ok_def [symmetric] by blast
qed

theorem invalid_custom_dimensions_stopped_witness:
  "preset (DEFAULT_SETTINGS\<lparr>preset := CUSTOM, width := Fin 0, height := Fin (- 5)\<rparr>) = CUSTOM
   \<and> js_le (Fin 0) (Fin 0)
   \<and> createImageBitmap cooperativeBrowser
        \<lparr>file_name = ''photo.png'', file_type = ''image/png'', file_bytes = []\<rparr>
       = Some \<lparr>img_width = 4000, img_height = 2000\<rparr>
   \<and> (\<forall>c. getContext cooperativeBrowser c)
   \<and> (\<forall>c m q. toBlob cooperativeBrowser c m q \<noteq> None)
   \<and> handleProcess cooperativeBrowser
        (Some \<lparr>file_name = ''photo.png'', file_type = ''image/png'', file_bytes = []\<rparr>)
        (DEFAULT_SETTINGS\<lparr>preset := CUSTOM, width := Fin 0, height := Fin (- 5)\<rparr>) = None
   \<and> (\<exists>ctx out. handleProcess cooperativeBrowser
          (Some \<lparr>file_name = ''photo.png'', file_type = ''image/png'', file_bytes = []\<rparr>)
          (DEFAULT_SETTINGS\<lparr>preset := CUSTOM, width := Fin 100, height := Fin 100\<rparr>)
          = Some (Inr (ctx, out))
        \<and> out_width out = Fin 100 \<and> out_height out = Fin 100
        \<and> filename out = ''photo_100x100_Custom.jpg'')"
  using invalid_custom_dimensions_stopped [of
      "DEFAULT_SETTINGS\<lparr>preset := CUSTOM, width := Fin 0, height := Fin (- 5)\<rparr>"
      cooperativeBrowser
      "Some \<lparr>file_name = ''photo.png'', file_type = ''image/png'', file_bytes = []\<rparr>"
      "\<lparr>file_name = ''photo.png'', file_type = ''image/png'', file_bytes = []\<rparr>"
      "\<lparr>img_width = 4000, img_height = 2000\<rparr>"]
  by (simp add: model_defs)

text \<open>
  Custom 0 by -5: \<open>handleProcess\<close> returns without a result, and \<open>renderToCanvas\<close> itself,
  given these settings and a 640 by 480 image, returns a result at 640 by 480 where the
  specification has the failure \<open>InvalidCustomDimensions\<close>.
\<close>

theorem invalid_custom_dimensions_counterexample:
  "handleProcess cooperativeBrowser
      (Some \<lparr>file_name = ''photo.png'', file_type = ''image/png'', file_bytes = []\<rparr>)
      (DEFAULT_SETTINGS\<lparr>preset := CUSTOM, width := Fin 0, height := Fin (- 5)\<rparr>) = None
   \<and> renderToCanvas cooperativeBrowser \<lparr>img_width = 640, img_height = 480\<rparr> ''photo.png''
        (DEFAULT_SETTINGS\<lparr>preset := CUSTOM, width := Fin 0, height := Fin (- 5)\<rparr>)
      = Inr (\<lparr>canvas_width = Fin 640, canvas_height = Fin 480,
               imageSmoothingEnabled = True, imageSmoothingQuality = ''high'',
               fillStyle = ''#000000'',
               painted = [FillRect ''#000000'' (Fin 0) (Fin 0) (Fin 640) (Fin 480),
                 DrawImage \<lparr>img_width = 640, img_height = 480\<rparr>
                   (Fin 0) (Fin 0) (Fin 640) (Fin 480)]\<rparr>,
             \<lparr>blob = ''image/jpeg'', url = ''blob:image/jpeg'',
              filename = ''photo_640x480_Custom.jpg'',
              out_width = Fin 640, out_height = Fin 480\<rparr>)"
  by (simp add: model_defs)

section \<open>The geometry step has no guard\<close>





section \<open>The background\<close>

text \<open>
  A colour other than \<open>transparent\<close> fills the frame as given; \<open>transparent\<close> clears the
  frame, for PNG and WEBP and for JPEG alike. For JPEG the fill style is set to black, and
  no \<open>fillRect\<close> uses it.
\<close>

lemma background_filled_as_given:
  "backgroundColor s \<noteq> ''transparent'' \<Longrightarrow>
   drawBackground s tw th ctx
     = ctx\<lparr>fillStyle := backgroundColor s,
           painted := painted ctx @ [FillRect (backgroundColor s) (Fin 0) (Fin 0) tw th]\<rparr>"
  by (simp add: drawBackground_def fillRect_def Let_def)

lemma background_cleared_with_alpha:
  "backgroundColor s = ''transparent'' \<Longrightarrow> format s \<noteq> JPEG \<Longrightarrow>
   drawBackground s tw th ctx
     = ctx\<lparr>fillStyle := ''transparent'',
           painted := painted ctx @ [ClearRect (Fin 0) (Fin 0) tw th]\<rparr>"
  by (simp add: drawBackground_def clearRect_def Let_def)

lemma background_cleared_for_jpeg:
  "backgroundColor s = ''transparent'' \<Longrightarrow> format s = JPEG \<Longrightarrow>
   drawBackground s tw th ctx
     = ctx\<lparr>fillStyle := ''#000000'',
           painted := painted ctx @ [ClearRect (Fin 0) (Fin 0) tw th]\<rparr>"
  by (simp add: drawBackground_def clearRect_def Let_def)

text \<open>
  C2, at the default settings with the transparent background (the format is JPEG): the
  fill style is black, and the only painting calls are a \<open>clearRect\<close> over the frame and
  the \<open>drawImage\<close>. The frame is not filled with black before the image is drawn.
\<close>

theorem jpeg_transparent_frame_not_filled:
  "renderToCanvas cooperativeBrowser \<lparr>img_width = 4000, img_height = 2000\<rparr> ''photo.png''
        (DEFAULT_SETTINGS\<lparr>backgroundColor := ''transparent''\<rparr>)
      = Inr (\<lparr>canvas_width = Fin 3840, canvas_height = Fin 2160,
               imageSmoothingEnabled = True, imageSmoothingQuality = ''high'',
               fillStyle = ''#000000'',
               painted = [ClearRect (Fin 0) (Fin 0) (Fin 3840) (Fin 2160),
                 DrawImage \<lparr>img_width = 4000, img_height = 2000\<rparr>
                   (Fin 0) (Fin 120) (Fin 3840) (Fin 1920)]\<rparr>,
             \<lparr>blob = ''image/jpeg'', url = ''blob:image/jpeg'',
              filename = ''photo_3840x2160_4KUHD.jpg'',
              out_width = Fin 3840, out_height = Fin 2160\<rparr>)"
  by (simp add: model_defs)

section \<open>The filename\<close>

text \<open>Splitting at a separator and joining with it again gives the string back.\<close>

lemma js_split_nonempty: "js_split sep xs \<noteq> []"
  by (induction xs) (auto split: list.splits)

lemma js_split_no_sep: "sep \<notin> set xs \<Longrightarrow> js_split sep xs = [xs]"
  by (induction xs) auto

lemma js_split_append: "js_split sep (xs @ sep # ys) = js_split sep xs @ js_split sep ys"
proof (induction xs)
  case Nil
  show ?case by simp
next
  case (Cons x xs)
  obtain p ps where s: "js_split sep xs = p # ps"
    using js_split_nonempty [of sep xs] by (cases "js_split sep xs") auto
  show ?case using Cons s by simp
qed

lemma js_join_Cons: "js_join sep ((c # p) # ps) = c # js_join sep (p # ps)"
  by (cases ps) simp_all

lemma js_join_split: "js_join sep (js_split sep xs) = xs"
proof (induction xs)
  case Nil
  show ?case by simp
next
  case (Cons x xs)
  obtain p ps where s: "js_split sep xs = p # ps"
    using js_split_nonempty [of sep xs] by (cases "js_split sep xs") auto
  show ?case using Cons s by (simp add: js_join_Cons)
qed

text \<open>The parts of \<open>base.ext\<close> without their last one are the parts of \<open>base\<close>.\<close>

lemma pop_extension:
  assumes "sep \<notin> set e"
  shows "(let nameParts = js_split sep (b @ sep # e)
          in js_join sep (if length nameParts > 1 then butlast nameParts else nameParts)) = b"
proof -
  have s: "js_split sep (b @ sep # e) = js_split sep b @ [e]"
    using assms by (simp add: js_split_append js_split_no_sep)
  have l: "length (js_split sep b) > 0"
    using js_split_nonempty [of sep b] by simp
  show ?thesis using l by (simp add: s Let_def js_join_split)
qed

lemma no_extension:
  assumes "sep \<notin> set name"
  shows "(let nameParts = js_split sep name
          in js_join sep (if length nameParts > 1 then butlast nameParts else nameParts)) = name"
  using assms by (simp add: js_split_no_sep)

lemma stripExtension_last_dot:
  "CHR ''.'' \<notin> set e \<Longrightarrow> stripExtension (b @ CHR ''.'' # e) = b"
proof -
  assume n: "CHR ''.'' \<notin> set e"
  have "dropWhile (\<lambda>c. c \<noteq> CHR ''.'') (rev e @ CHR ''.'' # rev b) = CHR ''.'' # rev b"
    using n by (auto simp add: dropWhile_append3)
  then show ?thesis by (simp add: stripExtension_def)
qed

lemma baseName_is_stripExtension:
  "(let nameParts = js_split CHR ''.'' name
    in js_join CHR ''.'' (if length nameParts > 1 then butlast nameParts else nameParts))
   = stripExtension name"
proof (cases "CHR ''.'' \<in> set name")
  case True
  then obtain b e where ne: "name = b @ CHR ''.'' # e" "CHR ''.'' \<notin> set e"
    using split_list_last [of "CHR ''.''" name] by blast
  show ?thesis
    unfolding ne(1) using pop_extension [OF ne(2)] stripExtension_last_dot [OF ne(2)]
    by simp
next
  case False
  then show ?thesis using no_extension [OF False] by (simp add: stripExtension_def)
qed

lemma label_spaces:
  "filter (\<lambda>c. \<not> is_space c) (preset_label p) = labelWithSpacesRemoved p"
  by (cases p) (simp_all add: is_space_def labelWithSpacesRemoved_def)

text \<open>The decimal digits that \<open>showDigits\<close> prints are the decimal numeral of the number.\<close>

lemma digit_facts:
  assumes "d < 10"
  shows "isDigit (''0123456789'' ! d)"
    and "of_char (''0123456789'' ! d) - 48 = d"
    and "(''0123456789'' ! d = CHR ''0'') = (d = 0)"
proof -
  have "d = 0 \<or> d = 1 \<or> d = 2 \<or> d = 3 \<or> d = 4 \<or> d = 5 \<or> d = 6 \<or> d = 7 \<or> d = 8 \<or> d = 9"
    using assms by arith
  then show "isDigit (''0123456789'' ! d)"
    and "of_char (''0123456789'' ! d) - 48 = d"
    and "(''0123456789'' ! d = CHR ''0'') = (d = 0)"
    by (auto simp add: isDigit_def)
qed

lemma decimalValue_snoc:
  "decimalValue (xs @ [c]) = 10 * decimalValue xs + (of_char c - 48)"
  by (simp add: decimalValue_def)

lemma showDigits_value: "decimalValue (showDigits n) = n"
proof (induction n rule: showDigits.induct)
  case (1 n)
  show ?case
  proof (cases "n < 10")
    case True
    then show ?thesis
      by (subst showDigits.simps) (simp add: decimalValue_def digit_facts(2))
  next
    case False
    have "decimalValue (showDigits n)
        = 10 * decimalValue (showDigits (n div 10)) + (of_char (''0123456789'' ! (n mod 10)) - 48)"
      using False by (subst showDigits.simps) (simp add: decimalValue_snoc)
    also have "\<dots> = 10 * (n div 10) + n mod 10"
      using 1 False by (simp add: digit_facts(2))
    finally show ?thesis by simp
  qed
qed

lemma showDigits_digits: "list_all isDigit (showDigits n)"
proof (induction n rule: showDigits.induct)
  case (1 n)
  show ?case
  proof (cases "n < 10")
    case True
    then show ?thesis by (subst showDigits.simps) (simp add: digit_facts(1))
  next
    case False
    then show ?thesis using 1 by (subst showDigits.simps) (simp add: digit_facts(1))
  qed
qed

lemma showDigits_nonempty: "showDigits n \<noteq> []"
  by (subst showDigits.simps) simp

lemma showDigits_hd: "0 < n \<Longrightarrow> hd (showDigits n) \<noteq> CHR ''0''"
proof (induction n rule: showDigits.induct)
  case (1 n)
  show ?case
  proof (cases "n < 10")
    case True
    have eq: "showDigits n = [''0123456789'' ! n]"
      using True by (subst showDigits.simps) simp
    have h: "hd (showDigits n) = ''0123456789'' ! n" unfolding eq by (rule list.sel(1))
    show ?thesis unfolding h digit_facts(3) [OF True] using "1.prems" by simp
  next
    case False
    then have "0 < n div 10" by simp
    then have "hd (showDigits (n div 10)) \<noteq> CHR ''0''" using 1 False by simp
    then show ?thesis
      using False showDigits_nonempty [of "n div 10"]
      by (subst showDigits.simps) simp
  qed
qed

lemma showDigits_decimal: "isDecimalOf (showDigits n) n"
proof (cases "n = 0")
  case True
  have "showDigits 0 = ''0''" by (subst showDigits.simps) simp
  then show ?thesis using True by (simp add: isDecimalOf_def isDigit_def decimalValue_def)
next
  case False
  then show ?thesis
    using showDigits_hd [of n]
    by (simp add: isDecimalOf_def showDigits_value showDigits_digits showDigits_nonempty)
qed

lemma Number_toString_nat:
  assumes "n \<le> 2 ^ 53"
  shows "Number_toString other (Fin (of_nat n)) = showDigits n"
proof -
  have "(of_nat n :: rat) \<le> of_nat (2 ^ 53)" using assms by (simp only: of_nat_le_iff)
  then have "\<bar>of_nat n :: rat\<bar> \<le> 2 ^ 53" by simp
  then show ?thesis by (simp add: Number_toString_def)
qed

lemma generateFilename_derived:
  "generateFilename other name tw th s
     = derivedFilename name (Number_toString other tw) (Number_toString other th)
         (preset s) (format s)"
proof -
  have b: "js_join CHR ''.''
       (if length (js_split CHR ''.'' name) > 1 then butlast (js_split CHR ''.'' name)
        else js_split CHR ''.'' name) = stripExtension name"
    using baseName_is_stripExtension [of name] by (simp add: Let_def)
  have e: "(if format s = WEBP then ''webp'' else if format s = PNG then ''png'' else ''jpg'')
      = canonicalExtension (format s)"
    by (cases "format s") simp_all
  show ?thesis
    unfolding generateFilename_def derivedFilename_def Let_def b e label_spaces ..
qed

text \<open>
  C9. The filename that \<open>renderToCanvas\<close> returns is the original filename with its
  extension stripped, then \<open>_\<close>, the text of the target width, \<open>x\<close>, the text of the target
  height, \<open>_\<close>, the preset label without its spaces, a dot and the canonical extension of
  the format; the text of a dimension is the one a template literal gives, which for an
  integer from 0 to \<open>2^53\<close> is its decimal numeral. The name depends on the original
  filename, the target dimensions, the preset and the format only. \<open>photo.png\<close> at 1920 by
  1080 with the preset 1080p FHD and the format JPEG gives \<open>photo_1920x1080_1080pFHD.jpg\<close>.
\<close>

theorem filename_derivation:
  "generateFilename other name tw th s
     = derivedFilename name (Number_toString other tw) (Number_toString other th)
         (preset s) (format s)
   \<and> (w \<le> 2 ^ 53 \<longrightarrow>
        isDecimalOf (Number_toString other (Fin (of_nat w))) w)
   \<and> (renderToCanvas env img name s = Inr (ctx, out) \<longrightarrow>
        filename out = derivedFilename name
           (Number_toString (fractionToString env) (fst (determineTargetDimensions img s)))
           (Number_toString (fractionToString env) (snd (determineTargetDimensions img s)))
           (preset s) (format s)
        \<and> out_width out = fst (determineTargetDimensions img s)
        \<and> out_height out = snd (determineTargetDimensions img s))"
proof (intro conjI impI)
  show "generateFilename other name tw th s
     = derivedFilename name (Number_toString other tw) (Number_toString other th)
         (preset s) (format s)"
    by (rule generateFilename_derived)
next
  assume "w \<le> 2 ^ 53"
  then show "isDecimalOf (Number_toString other (Fin (of_nat w))) w"
    by (simp add: Number_toString_nat showDigits_decimal)
next
  assume r: "renderToCanvas env img name s = Inr (ctx, out)"
  show "filename out = derivedFilename name
           (Number_toString (fractionToString env) (fst (determineTargetDimensions img s)))
           (Number_toString (fractionToString env) (snd (determineTargetDimensions img s)))
           (preset s) (format s)"
    using renderToCanvas_Inr(2) [OF r] by (simp add: generateFilename_derived)
  show "out_width out = fst (determineTargetDimensions img s)"
       "out_height out = snd (determineTargetDimensions img s)"
    using renderToCanvas_Inr(3) [OF r, symmetric] by simp_all
qed

theorem filename_derivation_witness:
  "(1920::nat) \<le> 2 ^ 53
   \<and> renderToCanvas cooperativeBrowser \<lparr>img_width = 4000, img_height = 2000\<rparr> ''photo.png''
        (DEFAULT_SETTINGS\<lparr>preset := FHD_1080\<rparr>)
      = Inr (\<lparr>canvas_width = Fin 1920, canvas_height = Fin 1080,
               imageSmoothingEnabled = True, imageSmoothingQuality = ''high'',
               fillStyle = ''#000000'',
               painted = [FillRect ''#000000'' (Fin 0) (Fin 0) (Fin 1920) (Fin 1080),
                 DrawImage \<lparr>img_width = 4000, img_height = 2000\<rparr>
                   (Fin 0) (Fin 60) (Fin 1920) (Fin 960)]\<rparr>,
             \<lparr>blob = ''image/jpeg'', url = ''blob:image/jpeg'',
              filename = ''photo_1920x1080_1080pFHD.jpg'',
              out_width = Fin 1920, out_height = Fin 1080\<rparr>)
   \<and> Number_toString (fractionToString cooperativeBrowser) (Fin (of_nat 1920)) = ''1920''
   \<and> isDecimalOf ''1920'' 1920
   \<and> derivedFilename ''photo.png'' ''1920'' ''1080'' FHD_1080 JPEG
       = ''photo_1920x1080_1080pFHD.jpg''"
  using filename_derivation [of "fractionToString cooperativeBrowser" "''photo.png''"
      "Fin 1920" "Fin 1080" "DEFAULT_SETTINGS\<lparr>preset := FHD_1080\<rparr>" 1920 cooperativeBrowser
      "\<lparr>img_width = 4000, img_height = 2000\<rparr>"]
  by (simp add: model_defs derivedFilename_def stripExtension_def labelWithSpacesRemoved_def
      isDecimalOf_def isDigit_def decimalValue_def)

text \<open>Only the last extension goes; a name without a dot is kept whole.\<close>

lemma filename_examples:
  "stripExtension ''archive.tar.gz'' = ''archive.tar''"
  "stripExtension ''README'' = ''README''"
  "stripExtension ''.bashrc'' = ''''"
  "generateFilename (\<lambda>q. ''?'') ''archive.tar.gz'' (Fin 1280) (Fin 720)
     (DEFAULT_SETTINGS\<lparr>preset := HD_720, format := WEBP\<rparr>) = ''archive.tar_1280x720_720pHD.webp''"
  by (simp_all add: model_defs stripExtension_def)

end
